theory Spec2Isabelle
  imports Main "HOL-Library.Word"
begin

unbundle bit_operations_syntax

section \<open>The two drivers of the repository\<close>

text \<open>
  The repository holds two implementations of one USB gamepad driver for GRUB:
  \<^verbatim>\<open>src/usb_snes.c\<close> and \<^verbatim>\<open>src/usb_snes_gamepad.c\<close>. Both files declare functions of
  the same names (\<^verbatim>\<open>key_queue_push\<close>, \<^verbatim>\<open>grub_usb_snes_getkey\<close>, ...). The embedding of
  \<^verbatim>\<open>usb_snes.c\<close> keeps the plain names; everything taken from \<^verbatim>\<open>usb_snes_gamepad.c\<close>
  carries the prefix \<open>gp_\<close> (the two fields \<open>key_queue_begin\<close> and \<open>key_queue_size\<close>
  exist only there and keep their names).

  C \<^verbatim>\<open>int\<close> key codes are \<open>int\<close>; \<^verbatim>\<open>grub_uint8_t\<close> is \<open>8 word\<close>, \<^verbatim>\<open>grub_uint16_t\<close> is
  \<open>16 word\<close>. The queue indices and counters are C \<^verbatim>\<open>int\<close>s that the code keeps between
  0 and 32; they are \<open>nat\<close> here. Pointers are \<open>nat option\<close>, \<open>None\<close> being \<^verbatim>\<open>NULL\<close>.
\<close>

type_synonym u8 = "8 word"
type_synonym u16 = "16 word"

subsection \<open>What comes from GRUB's headers\<close>

text \<open>
  The key codes \<^verbatim>\<open>GRUB_TERM_NO_KEY\<close>, \<^verbatim>\<open>GRUB_TERM_ESC\<close>, \<^verbatim>\<open>GRUB_TERM_KEY_UP\<close>, ... are macros
  of \<^verbatim>\<open>grub/term.h\<close>, which is not part of the repository. Every function that uses one of
  them takes the header's values as its first argument.
\<close>

record term_h =
  GRUB_TERM_NO_KEY :: int
  GRUB_TERM_ESC :: int
  GRUB_TERM_KEY_UP :: int
  GRUB_TERM_KEY_DOWN :: int
  GRUB_TERM_KEY_LEFT :: int
  GRUB_TERM_KEY_RIGHT :: int
  GRUB_TERM_KEY_PPAGE :: int
  GRUB_TERM_KEY_NPAGE :: int

text \<open>The values GRUB 2 gives these macros; used where a concrete header is needed.\<close>

definition grub2_term_h :: term_h where
  "grub2_term_h =
     \<lparr>GRUB_TERM_NO_KEY = 0, GRUB_TERM_ESC = 0x1b,
      GRUB_TERM_KEY_UP = 0x800048, GRUB_TERM_KEY_DOWN = 0x800050,
      GRUB_TERM_KEY_LEFT = 0x80004b, GRUB_TERM_KEY_RIGHT = 0x80004d,
      GRUB_TERM_KEY_PPAGE = 0x800049, GRUB_TERM_KEY_NPAGE = 0x800051\<rparr>"

text \<open>
  \<^verbatim>\<open>grub_usb_err_t\<close> (\<^verbatim>\<open>grub/usb.h\<close>): the drivers tell \<^verbatim>\<open>GRUB_USB_ERR_NONE\<close> and
  \<^verbatim>\<open>GRUB_USB_ERR_WAIT\<close> from every other code.
\<close>

datatype grub_usb_err = GRUB_USB_ERR_NONE | GRUB_USB_ERR_WAIT | GRUB_USB_ERR_OTHER nat

text \<open>\<^verbatim>\<open>grub_usb_get_ep_type\<close> yields one of the four USB endpoint types.\<close>

datatype grub_usb_ep_type =
  GRUB_USB_EP_CONTROL | GRUB_USB_EP_ISOCHRONOUS | GRUB_USB_EP_BULK | GRUB_USB_EP_INTERRUPT

subsection \<open>Constants of the two files\<close>

definition SNES_REPORT_SIZE :: nat where "SNES_REPORT_SIZE = 8"
definition USB_REPORT_SIZE :: nat where "USB_REPORT_SIZE = 8"
definition AXIS_CENTER :: int where "AXIS_CENTER = 0x7F"
definition AXIS_THRESHOLD :: int where "AXIS_THRESHOLD = 0x40"
definition MAX_GAMEPADS :: nat where "MAX_GAMEPADS = 8"
definition GAMEPADS_CAPACITY :: nat where "GAMEPADS_CAPACITY = 8"
definition KEY_QUEUE_CAPACITY :: nat where "KEY_QUEUE_CAPACITY = 32"

section \<open>usb\_snes.c: session and key queue\<close>

text \<open>
  \<^verbatim>\<open>struct grub_usb_snes_data\<close> of \<^verbatim>\<open>usb_snes.c\<close>. \<open>usbdev\<close> is the device pointer (only
  compared), \<open>endp\<close> the index of the chosen endpoint descriptor, \<open>dead\<close> the C \<^verbatim>\<open>int\<close> flag
  that is only ever 0 or 1.
\<close>

record snes_data =
  usbdev :: nat
  interfno :: int
  endp :: nat
  transfer :: "nat option"
  report :: "u8 list"
  prev_report :: "u8 list"
  dead :: bool
  key_queue :: "int list"
  key_queue_head :: nat
  key_queue_tail :: nat
  key_queue_count :: nat

text \<open>
  \<^verbatim>\<open>key_queue_push\<close>, usb\_snes.c lines 66-74: a full queue and \<^verbatim>\<open>GRUB_TERM_NO_KEY\<close> both
  return at once. (\<open>xs[i := v]\<close> leaves \<open>xs\<close> alone when \<open>i\<close> is out of range, where C
  would write out of bounds; the tail index is below 32 in every state the driver builds.)
\<close>

definition key_queue_push :: "term_h \<Rightarrow> snes_data \<Rightarrow> int \<Rightarrow> snes_data" where
  "key_queue_push k data key =
     (if key_queue_count data \<ge> 32 \<or> key = GRUB_TERM_NO_KEY k then data
      else data\<lparr>key_queue := (key_queue data)[key_queue_tail data := key],
                key_queue_tail := (key_queue_tail data + 1) mod 32,
                key_queue_count := key_queue_count data + 1\<rparr>)"

text \<open>\<^verbatim>\<open>key_queue_pop\<close>, usb\_snes.c lines 76-85: the returned key and the session.\<close>

definition key_queue_pop :: "term_h \<Rightarrow> snes_data \<Rightarrow> int \<times> snes_data" where
  "key_queue_pop k data =
     (if key_queue_count data \<le> 0 then (GRUB_TERM_NO_KEY k, data)
      else (key_queue data ! key_queue_head data,
            data\<lparr>key_queue_head := (key_queue_head data + 1) mod 32,
                 key_queue_count := key_queue_count data - 1\<rparr>))"

section \<open>usb\_snes\_gamepad.c: session and key queue\<close>

text \<open>\<^verbatim>\<open>struct grub_usb_snes_data\<close> of \<^verbatim>\<open>usb_snes_gamepad.c\<close>: no \<^verbatim>\<open>dead\<close> flag.\<close>

record gp_data =
  gp_usbdev :: nat
  gp_configno :: int
  gp_interfno :: int
  gp_endp :: nat
  gp_transfer :: "nat option"
  gp_report :: "u8 list"
  gp_prev_report :: "u8 list"
  gp_key_queue :: "int list"
  key_queue_begin :: nat
  key_queue_size :: nat

text \<open>
  \<^verbatim>\<open>key_queue_push\<close>, usb\_snes\_gamepad.c lines 146-164: the key is always written at
  \<^verbatim>\<open>(begin + size) % KEY_QUEUE_CAPACITY\<close>; a full queue then moves \<^verbatim>\<open>begin\<close> forward.
\<close>

definition gp_key_queue_push :: "term_h \<Rightarrow> gp_data \<Rightarrow> int \<Rightarrow> gp_data" where
  "gp_key_queue_push k data key =
     (if key = GRUB_TERM_NO_KEY k then data
      else let pos = (key_queue_begin data + key_queue_size data) mod KEY_QUEUE_CAPACITY;
               data = data\<lparr>gp_key_queue := (gp_key_queue data)[pos := key]\<rparr>
           in if key_queue_size data < KEY_QUEUE_CAPACITY
              then data\<lparr>key_queue_size := key_queue_size data + 1\<rparr>
              else data\<lparr>key_queue_begin := (key_queue_begin data + 1) mod KEY_QUEUE_CAPACITY\<rparr>)"

text \<open>\<^verbatim>\<open>key_queue_pop\<close>, usb\_snes\_gamepad.c lines 166-176.\<close>

definition gp_key_queue_pop :: "term_h \<Rightarrow> gp_data \<Rightarrow> int \<times> gp_data" where
  "gp_key_queue_pop k data =
     (if key_queue_size data \<le> 0 then (GRUB_TERM_NO_KEY k, data)
      else (gp_key_queue data ! key_queue_begin data,
            data\<lparr>key_queue_begin := (key_queue_begin data + 1) mod KEY_QUEUE_CAPACITY,
                 key_queue_size := key_queue_size data - 1\<rparr>))"

text \<open>
  The keys a queue holds, oldest first, and the states the drivers keep their queues in.
\<close>

definition queue_keys :: "snes_data \<Rightarrow> int list" where
  "queue_keys data =
     map (\<lambda>i. key_queue data ! ((key_queue_head data + i) mod 32)) [0..<key_queue_count data]"

definition queue_ok :: "snes_data \<Rightarrow> bool" where
  "queue_ok data =
     (length (key_queue data) = 32 \<and> key_queue_head data < 32 \<and> key_queue_count data \<le> 32
      \<and> key_queue_tail data = (key_queue_head data + key_queue_count data) mod 32)"

definition gp_queue_keys :: "gp_data \<Rightarrow> int list" where
  "gp_queue_keys data =
     map (\<lambda>i. gp_key_queue data ! ((key_queue_begin data + i) mod KEY_QUEUE_CAPACITY))
       [0..<key_queue_size data]"

definition gp_queue_ok :: "gp_data \<Rightarrow> bool" where
  "gp_queue_ok data =
     (length (gp_key_queue data) = KEY_QUEUE_CAPACITY \<and> key_queue_begin data < KEY_QUEUE_CAPACITY
      \<and> key_queue_size data \<le> KEY_QUEUE_CAPACITY)"

section \<open>The report codec\<close>

text \<open>
  The statement \<^verbatim>\<open>if (cond) key_queue_push (data, key);\<close>, of which both codecs are made.
\<close>

definition push_if :: "term_h \<Rightarrow> bool \<Rightarrow> int \<Rightarrow> snes_data \<Rightarrow> snes_data" where
  "push_if k cond key data = (if cond then key_queue_push k data key else data)"

definition gp_push_if :: "term_h \<Rightarrow> bool \<Rightarrow> int \<Rightarrow> gp_data \<Rightarrow> gp_data" where
  "gp_push_if k cond key data = (if cond then gp_key_queue_push k data key else data)"

text \<open>
  \<^verbatim>\<open>parse_snes_report\<close>, usb\_snes.c lines 102-171. The bytes are promoted to \<^verbatim>\<open>int\<close> before
  they are compared (\<open>uint\<close>); a mask test \<^verbatim>\<open>x & m\<close> is true when the result is not 0. The
  characters \<^verbatim>\<open>'\r'\<close>, \<^verbatim>\<open>'e'\<close> and \<^verbatim>\<open>'c'\<close> are the ints 13, 101 and 99. The closing
  \<^verbatim>\<open>grub_dprintf\<close> changes nothing.
\<close>

definition parse_snes_report :: "term_h \<Rightarrow> snes_data \<Rightarrow> snes_data" where
  "parse_snes_report k data =
     (let prev = prev_report data; curr = report data;
          prev_up    = (uint (prev ! 1) < AXIS_CENTER - AXIS_THRESHOLD);
          prev_down  = (uint (prev ! 1) > AXIS_CENTER + AXIS_THRESHOLD);
          prev_left  = (uint (prev ! 0) < AXIS_CENTER - AXIS_THRESHOLD);
          prev_right = (uint (prev ! 0) > AXIS_CENTER + AXIS_THRESHOLD);
          curr_up    = (uint (curr ! 1) < AXIS_CENTER - AXIS_THRESHOLD);
          curr_down  = (uint (curr ! 1) > AXIS_CENTER + AXIS_THRESHOLD);
          curr_left  = (uint (curr ! 0) < AXIS_CENTER - AXIS_THRESHOLD);
          curr_right = (uint (curr ! 0) > AXIS_CENTER + AXIS_THRESHOLD);
          data = push_if k (\<not> prev_up \<and> curr_up) (GRUB_TERM_KEY_UP k) data;
          data = push_if k (\<not> prev_down \<and> curr_down) (GRUB_TERM_KEY_DOWN k) data;
          data = push_if k (\<not> prev_left \<and> curr_left) (GRUB_TERM_KEY_LEFT k) data;
          data = push_if k (\<not> prev_right \<and> curr_right) (GRUB_TERM_KEY_RIGHT k) data;
          prev_btns = prev ! 4; curr_btns = curr ! 4;
          data = push_if k (((prev_btns AND 0x02) = 0 \<and> (curr_btns AND 0x02) \<noteq> 0) \<or>
                            ((prev_btns AND 0x04) = 0 \<and> (curr_btns AND 0x04) \<noteq> 0)) 13 data;
          data = push_if k ((prev_btns AND 0x80) = 0 \<and> (curr_btns AND 0x80) \<noteq> 0) 13 data;
          data = push_if k ((prev_btns AND 0x40) = 0 \<and> (curr_btns AND 0x40) \<noteq> 0)
                   (GRUB_TERM_ESC k) data;
          data = push_if k ((prev_btns AND 0x01) = 0 \<and> (curr_btns AND 0x01) \<noteq> 0) 101 data;
          data = push_if k ((prev_btns AND 0x08) = 0 \<and> (curr_btns AND 0x08) \<noteq> 0) 99 data;
          data = push_if k ((prev_btns AND 0x10) = 0 \<and> (curr_btns AND 0x10) \<noteq> 0)
                   (GRUB_TERM_KEY_PPAGE k) data;
          data = push_if k ((prev_btns AND 0x20) = 0 \<and> (curr_btns AND 0x20) \<noteq> 0)
                   (GRUB_TERM_KEY_NPAGE k) data
      in data)"

text \<open>The button masks and the key table of usb\_snes\_gamepad.c, lines 65-72 and 101-112.\<close>

definition BTN_X :: u8 where "BTN_X = push_bit 0 1"
definition BTN_A :: u8 where "BTN_A = push_bit 1 1"
definition BTN_B :: u8 where "BTN_B = push_bit 2 1"
definition BTN_Y :: u8 where "BTN_Y = push_bit 3 1"
definition BTN_L :: u8 where "BTN_L = push_bit 4 1"
definition BTN_R :: u8 where "BTN_R = push_bit 5 1"
definition BTN_SELECT :: u8 where "BTN_SELECT = push_bit 6 1"
definition BTN_START :: u8 where "BTN_START = push_bit 7 1"

definition key_up :: "term_h \<Rightarrow> int" where "key_up k = GRUB_TERM_KEY_UP k"
definition key_down :: "term_h \<Rightarrow> int" where "key_down k = GRUB_TERM_KEY_DOWN k"
definition key_left :: "term_h \<Rightarrow> int" where "key_left k = GRUB_TERM_KEY_LEFT k"
definition key_right :: "term_h \<Rightarrow> int" where "key_right k = GRUB_TERM_KEY_RIGHT k"
definition key_a :: "term_h \<Rightarrow> int" where "key_a k = 13"
definition key_b :: "term_h \<Rightarrow> int" where "key_b k = GRUB_TERM_ESC k"
definition key_start :: "term_h \<Rightarrow> int" where "key_start k = 13"
definition key_select :: "term_h \<Rightarrow> int" where "key_select k = 101"
definition key_x :: "term_h \<Rightarrow> int" where "key_x k = 99"
definition key_y :: "term_h \<Rightarrow> int" where "key_y k = GRUB_TERM_ESC k"
definition key_l :: "term_h \<Rightarrow> int" where "key_l k = GRUB_TERM_KEY_PPAGE k"
definition key_r :: "term_h \<Rightarrow> int" where "key_r k = GRUB_TERM_KEY_NPAGE k"

text \<open>The macro \<^verbatim>\<open>BTN_PRESSED(p, c, m)\<close>, that is \<^verbatim>\<open>(!(p & m) && (c & m))\<close>.\<close>

definition BTN_PRESSED :: "u8 \<Rightarrow> u8 \<Rightarrow> u8 \<Rightarrow> bool" where
  "BTN_PRESSED p c m = ((p AND m) = 0 \<and> (c AND m) \<noteq> 0)"

text \<open>\<^verbatim>\<open>process_report\<close>, usb\_snes\_gamepad.c lines 196-248.\<close>

definition gp_process_report :: "term_h \<Rightarrow> gp_data \<Rightarrow> gp_data" where
  "gp_process_report k data =
     (let prev = gp_prev_report data; curr = gp_report data;
          prev_left  = (uint (prev ! 0) < AXIS_CENTER - AXIS_THRESHOLD);
          prev_right = (uint (prev ! 0) > AXIS_CENTER + AXIS_THRESHOLD);
          curr_left  = (uint (curr ! 0) < AXIS_CENTER - AXIS_THRESHOLD);
          curr_right = (uint (curr ! 0) > AXIS_CENTER + AXIS_THRESHOLD);
          prev_up   = (uint (prev ! 1) < AXIS_CENTER - AXIS_THRESHOLD);
          prev_down = (uint (prev ! 1) > AXIS_CENTER + AXIS_THRESHOLD);
          curr_up   = (uint (curr ! 1) < AXIS_CENTER - AXIS_THRESHOLD);
          curr_down = (uint (curr ! 1) > AXIS_CENTER + AXIS_THRESHOLD);
          data = gp_push_if k (\<not> prev_up \<and> curr_up) (key_up k) data;
          data = gp_push_if k (\<not> prev_down \<and> curr_down) (key_down k) data;
          data = gp_push_if k (\<not> prev_left \<and> curr_left) (key_left k) data;
          data = gp_push_if k (\<not> prev_right \<and> curr_right) (key_right k) data;
          prev_btns = prev ! 4; curr_btns = curr ! 4;
          data = gp_push_if k (BTN_PRESSED prev_btns curr_btns BTN_A) (key_a k) data;
          data = gp_push_if k (BTN_PRESSED prev_btns curr_btns BTN_B) (key_b k) data;
          data = gp_push_if k (BTN_PRESSED prev_btns curr_btns BTN_X) (key_x k) data;
          data = gp_push_if k (BTN_PRESSED prev_btns curr_btns BTN_Y) (key_y k) data;
          data = gp_push_if k (BTN_PRESSED prev_btns curr_btns BTN_START) (key_start k) data;
          data = gp_push_if k (BTN_PRESSED prev_btns curr_btns BTN_SELECT) (key_select k) data;
          data = gp_push_if k (BTN_PRESSED prev_btns curr_btns BTN_L) (key_l k) data;
          data = gp_push_if k (BTN_PRESSED prev_btns curr_btns BTN_R) (key_r k) data
      in data)"

text \<open>
  The keys each codec hands to \<^verbatim>\<open>key_queue_push\<close>, in the order of its statements, as a
  function of the two reports alone. The lemmas \<open>parse_snes_report_pushes\<close> and
  \<open>gp_process_report_pushes\<close> below show that the codecs do nothing but push these keys.
\<close>

definition emit :: "bool \<Rightarrow> int \<Rightarrow> int list" where
  "emit cond key = (if cond then [key] else [])"

definition dpad_keys :: "term_h \<Rightarrow> u8 list \<Rightarrow> u8 list \<Rightarrow> int list" where
  "dpad_keys k prv cur =
     emit (\<not> uint (prv ! 1) < AXIS_CENTER - AXIS_THRESHOLD \<and>
           uint (cur ! 1) < AXIS_CENTER - AXIS_THRESHOLD) (GRUB_TERM_KEY_UP k) @
     emit (\<not> uint (prv ! 1) > AXIS_CENTER + AXIS_THRESHOLD \<and>
           uint (cur ! 1) > AXIS_CENTER + AXIS_THRESHOLD) (GRUB_TERM_KEY_DOWN k) @
     emit (\<not> uint (prv ! 0) < AXIS_CENTER - AXIS_THRESHOLD \<and>
           uint (cur ! 0) < AXIS_CENTER - AXIS_THRESHOLD) (GRUB_TERM_KEY_LEFT k) @
     emit (\<not> uint (prv ! 0) > AXIS_CENTER + AXIS_THRESHOLD \<and>
           uint (cur ! 0) > AXIS_CENTER + AXIS_THRESHOLD) (GRUB_TERM_KEY_RIGHT k)"

definition snes_button_keys :: "term_h \<Rightarrow> u8 \<Rightarrow> u8 \<Rightarrow> int list" where
  "snes_button_keys k p c =
     emit (BTN_PRESSED p c 0x02 \<or> BTN_PRESSED p c 0x04) 13 @
     emit (BTN_PRESSED p c 0x80) 13 @
     emit (BTN_PRESSED p c 0x40) (GRUB_TERM_ESC k) @
     emit (BTN_PRESSED p c 0x01) 101 @
     emit (BTN_PRESSED p c 0x08) 99 @
     emit (BTN_PRESSED p c 0x10) (GRUB_TERM_KEY_PPAGE k) @
     emit (BTN_PRESSED p c 0x20) (GRUB_TERM_KEY_NPAGE k)"

definition gp_button_keys :: "term_h \<Rightarrow> u8 \<Rightarrow> u8 \<Rightarrow> int list" where
  "gp_button_keys k p c =
     emit (BTN_PRESSED p c BTN_A) (key_a k) @
     emit (BTN_PRESSED p c BTN_B) (key_b k) @
     emit (BTN_PRESSED p c BTN_X) (key_x k) @
     emit (BTN_PRESSED p c BTN_Y) (key_y k) @
     emit (BTN_PRESSED p c BTN_START) (key_start k) @
     emit (BTN_PRESSED p c BTN_SELECT) (key_select k) @
     emit (BTN_PRESSED p c BTN_L) (key_l k) @
     emit (BTN_PRESSED p c BTN_R) (key_r k)"

definition snes_keys :: "term_h \<Rightarrow> u8 list \<Rightarrow> u8 list \<Rightarrow> int list" where
  "snes_keys k prv cur = dpad_keys k prv cur @ snes_button_keys k (prv ! 4) (cur ! 4)"

definition gp_keys :: "term_h \<Rightarrow> u8 list \<Rightarrow> u8 list \<Rightarrow> int list" where
  "gp_keys k prv cur = dpad_keys k prv cur @ gp_button_keys k (prv ! 4) (cur ! 4)"

section \<open>The poll step\<close>

text \<open>
  What GRUB's USB layer answers during one call of \<^verbatim>\<open>grub_usb_snes_getkey\<close>:
  \<open>chk_err\<close> and \<open>chk_actual\<close> are the result of \<^verbatim>\<open>grub_usb_check_transfer\<close> and the
  byte count it stores in \<^verbatim>\<open>actual\<close>; \<open>chk_data\<close> is the content of the report buffer once
  a finished transfer has been checked (the controller writes the received bytes there; it is
  the old content where nothing was written); \<open>new_transfer\<close> is what
  \<^verbatim>\<open>grub_usb_bulk_read_background\<close> returns, \<open>None\<close> for \<^verbatim>\<open>NULL\<close>. The calls a poll makes
  to the USB layer are returned with its result, in order.
\<close>

record usb_poll =
  chk_err :: grub_usb_err
  chk_actual :: nat
  chk_data :: "u8 list"
  new_transfer :: "nat option"

datatype usb_call = Check_transfer "nat option" | Bulk_read_background

text \<open>\<^verbatim>\<open>grub_usb_snes_getkey\<close>, usb\_snes.c lines 173-217.\<close>

definition grub_usb_snes_getkey ::
  "term_h \<Rightarrow> usb_poll \<Rightarrow> snes_data \<Rightarrow> int \<times> snes_data \<times> usb_call list" where
  "grub_usb_snes_getkey k io data =
     (if dead data then (GRUB_TERM_NO_KEY k, data, [])
      else if key_queue_count data > 0
      then (fst (key_queue_pop k data), snd (key_queue_pop k data), [])
      else if chk_err io = GRUB_USB_ERR_WAIT
      then (GRUB_TERM_NO_KEY k, data, [Check_transfer (transfer data)])
      else
        let calls = [Check_transfer (transfer data), Bulk_read_background];
            data = data\<lparr>report := chk_data io\<rparr>;
            data = (if chk_err io = GRUB_USB_ERR_NONE \<and> chk_actual io \<ge> 1
                    then (parse_snes_report k data)\<lparr>prev_report := report data\<rparr>
                    else data);
            data = data\<lparr>transfer := new_transfer io\<rparr>
        in if transfer data = None
           then (GRUB_TERM_NO_KEY k, data\<lparr>dead := True\<rparr>, calls)
           else (fst (key_queue_pop k data), snd (key_queue_pop k data), calls))"

text \<open>\<^verbatim>\<open>grub_usb_snes_getkey\<close>, usb\_snes\_gamepad.c lines 254-291.\<close>

definition gp_grub_usb_snes_getkey ::
  "term_h \<Rightarrow> usb_poll \<Rightarrow> gp_data \<Rightarrow> int \<times> gp_data \<times> usb_call list" where
  "gp_grub_usb_snes_getkey k io data =
     (if chk_err io \<noteq> GRUB_USB_ERR_WAIT
      then
        let calls = [Check_transfer (gp_transfer data), Bulk_read_background];
            data = data\<lparr>gp_report := chk_data io\<rparr>;
            data = (if chk_err io = GRUB_USB_ERR_NONE \<and> chk_actual io = USB_REPORT_SIZE
                    then gp_process_report k data else data);
            data = data\<lparr>gp_prev_report := gp_report data\<rparr>;
            data = data\<lparr>gp_transfer := new_transfer io\<rparr>
        in (fst (gp_key_queue_pop k data), snd (gp_key_queue_pop k data), calls)
      else (fst (gp_key_queue_pop k data), snd (gp_key_queue_pop k data),
            [Check_transfer (gp_transfer data)]))"

text \<open>A run of polls, one answer of the USB layer for each: every poll's key and calls.\<close>

fun polls :: "term_h \<Rightarrow> usb_poll list \<Rightarrow> snes_data \<Rightarrow> (int \<times> usb_call list) list \<times> snes_data"
  where
  "polls k [] data = ([], data)"
| "polls k (io # ios) data =
     (case grub_usb_snes_getkey k io data of
        (key, data', calls) \<Rightarrow>
          (case polls k ios data' of (rs, data'') \<Rightarrow> ((key, calls) # rs, data'')))"

section \<open>The slot table, attach and detach\<close>

text \<open>
  \<^verbatim>\<open>struct grub_term_input\<close> (\<^verbatim>\<open>grub/term.h\<close>) as far as the drivers vary it: the name and
  the session pointer. The callbacks \<^verbatim>\<open>getkey\<close> and \<^verbatim>\<open>getkeystatus\<close> and the \<^verbatim>\<open>next\<close> link
  always receive the same values.
\<close>

record term_input =
  term_name :: "nat option"
  term_data :: "nat option"

text \<open>
  The state around the sessions: the static table (\<^verbatim>\<open>grub_usb_snes_terms\<close> or \<^verbatim>\<open>gamepads\<close>;
  indices from 8 on are not part of it), the sessions and the names on GRUB's heap (a block
  that was freed is no longer in the map), the slots registered as terminal inputs, and the
  handles of the background reads that were started and not cancelled.
\<close>

record 'd driver =
  terms :: "nat \<Rightarrow> term_input"
  mem :: "nat \<rightharpoonup> 'd"
  strs :: "nat \<rightharpoonup> string"
  inputs :: "nat set"
  reads :: "nat set"

definition driver_init :: "'d driver" where
  "driver_init =
     \<lparr>terms = (\<lambda>i. \<lparr>term_name = None, term_data = None\<rparr>), mem = Map.empty,
      strs = Map.empty, inputs = {}, reads = {}\<rparr>"

text \<open>
  The interface offered to the attach hook: the device pointer, the ids of
  \<^verbatim>\<open>usbdev->descdev\<close>, and of \<^verbatim>\<open>usbdev->config[configno].interf[interfno]\<close> the protocol
  byte and the endpoint descriptors (\<^verbatim>\<open>endpointcnt\<close> is their number).
\<close>

record usb_desc_endp =
  endp_addr :: u8
  ep_type :: grub_usb_ep_type

record usb_device =
  dev_ptr :: nat
  vendorid :: u16
  prodid :: u16
  protocol :: u8
  descendp :: "usb_desc_endp list"

text \<open>
  What the allocating calls of one attach return: \<^verbatim>\<open>grub_malloc\<close>, \<^verbatim>\<open>grub_xasprintf\<close> and
  \<^verbatim>\<open>grub_usb_bulk_read_background\<close> (\<open>None\<close> for \<^verbatim>\<open>NULL\<close>), and the content of the fresh
  block where the driver does not initialise it.
\<close>

record attach_env =
  malloc_res :: "nat option"
  malloc_junk :: "int list"
  xasprintf_res :: "nat option"
  read_res :: "nat option"

text \<open>The tables of known devices; the loops stop at the end marker.\<close>

definition supported_devices :: "(u16 \<times> u16) list" where
  "supported_devices =
     [(0x0810, 0xe501), (0x0079, 0x0011), (0x0583, 0x2060), (0x2dc8, 0x9018),
      (0x12bd, 0xd015), (0x1a34, 0x0802), (0x0810, 0x0001), (0x0079, 0x0006),
      (0x046d, 0xc218), (0, 0)]"

fun scan_supported :: "(u16 \<times> u16) list \<Rightarrow> u16 \<Rightarrow> u16 \<Rightarrow> bool" where
  "scan_supported [] vid pid = False"
| "scan_supported ((v, p) # rest) vid pid =
     (if v = 0 then False
      else if v = vid \<and> p = pid then True
      else scan_supported rest vid pid)"

definition is_supported_device :: "u16 \<Rightarrow> u16 \<Rightarrow> bool" where
  "is_supported_device vid pid = scan_supported supported_devices vid pid"

definition known_devices :: "(u16 \<times> u16 \<times> string option) list" where
  "known_devices =
     [(0x0810, 0xe501, Some ''Generic SNES (0810:e501)''),
      (0x0079, 0x0011, Some ''DragonRise (0079:0011)''),
      (0x0583, 0x2060, Some ''iBuffalo SNES (0583:2060)''),
      (0x2dc8, 0x9018, Some ''8BitDo SN30 (2dc8:9018)''),
      (0x12bd, 0xd015, Some ''Generic 2-pack (12bd:d015)''),
      (0x1a34, 0x0802, Some ''USB Gamepad (1a34:0802)''),
      (0x0810, 0x0001, Some ''Generic Gamepad (0810:0001)''),
      (0x0079, 0x0006, Some ''DragonRise (0079:0006)''),
      (0x0000, 0x0000, None)]"

fun scan_known :: "(u16 \<times> u16 \<times> string option) list \<Rightarrow> u16 \<Rightarrow> u16 \<Rightarrow> string option" where
  "scan_known [] vid pid = None"
| "scan_known ((v, p, None) # rest) vid pid = None"
| "scan_known ((v, p, Some n) # rest) vid pid =
     (if v = vid \<and> p = pid then Some n else scan_known rest vid pid)"

definition get_device_name :: "u16 \<Rightarrow> u16 \<Rightarrow> string option" where
  "get_device_name vid pid = scan_known known_devices vid pid"

definition ACCEPT_ANY_HID :: bool where "ACCEPT_ANY_HID = True"

text \<open>
  The two search loops of attach: the first slot without a session (the table's size when
  there is none) and the first interrupt IN endpoint (the endpoint count when there is none).
\<close>

fun first_free :: "(nat \<Rightarrow> term_input) \<Rightarrow> nat list \<Rightarrow> nat \<Rightarrow> nat" where
  "first_free ts [] n = n"
| "first_free ts (curnum # rest) n =
     (if term_data (ts curnum) = None then curnum else first_free ts rest n)"

fun find_endp :: "usb_desc_endp list \<Rightarrow> nat \<Rightarrow> nat" where
  "find_endp [] j = j"
| "find_endp (e # es) j =
     (if (endp_addr e AND 128) \<noteq> 0 \<and> ep_type e = GRUB_USB_EP_INTERRUPT then j
      else find_endp es (Suc j))"

text \<open>The name \<^verbatim>\<open>grub_xasprintf\<close> prints for a slot below 10.\<close>

definition slot_name :: "string \<Rightarrow> nat \<Rightarrow> string" where
  "slot_name pre curnum = pre @ [''0123456789'' ! curnum]"

text \<open>
  The session as \<^verbatim>\<open>grub_usb_snes_attach\<close> of usb\_snes.c fills it in (lines 307-321: all
  zero, then the device, the endpoint and the centred previous report).
\<close>

definition snes_data_init :: "nat \<Rightarrow> int \<Rightarrow> nat \<Rightarrow> snes_data" where
  "snes_data_init dev ifno ep =
     \<lparr>usbdev = dev, interfno = ifno, endp = ep, transfer = None,
      report = replicate SNES_REPORT_SIZE 0,
      prev_report = [0x7F, 0x7F, 0x7F, 0x7F, 0, 0, 0, 0],
      dead = False, key_queue = replicate 32 0,
      key_queue_head = 0, key_queue_tail = 0, key_queue_count = 0\<rparr>"

text \<open>
  \<^verbatim>\<open>grub_usb_snes_attach\<close>, usb\_snes.c lines 248-392. The three control requests, the
  detach hook stored in the device and the messages are not part of the state kept here.
\<close>

definition grub_usb_snes_attach ::
  "attach_env \<Rightarrow> usb_device \<Rightarrow> int \<Rightarrow> int \<Rightarrow> snes_data driver \<Rightarrow> int \<times> snes_data driver" where
  "grub_usb_snes_attach env dev configno ifno w =
     (if \<not> is_supported_device (vendorid dev) (prodid dev) then (0, w)
      else
        let curnum = first_free (terms w) [0..<MAX_GAMEPADS] MAX_GAMEPADS in
        if curnum = MAX_GAMEPADS then (0, w)
        else
          let j = find_endp (descendp dev) 0 in
          if j = length (descendp dev) then (0, w)
          else
            case malloc_res env of
              None \<Rightarrow> (0, w)
            | Some p \<Rightarrow>
                let data = snes_data_init (dev_ptr dev) ifno j;
                    w = w\<lparr>mem := (mem w)(p \<mapsto> data)\<rparr>;
                    w = (case xasprintf_res env of
                           None \<Rightarrow> w
                         | Some n \<Rightarrow> w\<lparr>strs := (strs w)(n \<mapsto> slot_name ''usb_snes'' curnum)\<rparr>);
                    w = w\<lparr>terms := (terms w)
                           (curnum := \<lparr>term_name = xasprintf_res env, term_data = Some p\<rparr>)\<rparr>
                in
                case term_name (terms w curnum) of
                  None \<Rightarrow> (0, w\<lparr>mem := (mem w)(p := None)\<rparr>)
                | Some n \<Rightarrow>
                    let w = w\<lparr>mem := (mem w)(p \<mapsto> data\<lparr>transfer := read_res env\<rparr>)\<rparr> in
                    (case read_res env of
                       None \<Rightarrow>
                         (0, w\<lparr>strs := (strs w)(n := None), mem := (mem w)(p := None),
                               terms := (terms w)
                                 (curnum := (terms w curnum)\<lparr>term_data := None\<rparr>)\<rparr>)
                     | Some t \<Rightarrow>
                         (1, w\<lparr>reads := insert t (reads w),
                               inputs := insert curnum (inputs w)\<rparr>)))"

text \<open>
  The session as \<^verbatim>\<open>grub_usb_snes_attach\<close> of usb\_snes\_gamepad.c fills it in (lines
  426-433); the queue array and the transfer handle keep what \<^verbatim>\<open>grub_malloc\<close> left there
  (the handle is assigned before it is read).
\<close>

definition baseline_report :: "u8 list" where
  "baseline_report = [0x7F, 0x7F, 0x7F, 0x7F, 0x00, 0x00, 0x00, 0x00]"

definition gp_data_init :: "int list \<Rightarrow> nat \<Rightarrow> int \<Rightarrow> int \<Rightarrow> nat \<Rightarrow> gp_data" where
  "gp_data_init junk dev cfgno ifno ep =
     \<lparr>gp_usbdev = dev, gp_configno = cfgno, gp_interfno = ifno, gp_endp = ep,
      gp_transfer = None, gp_report = replicate USB_REPORT_SIZE 0,
      gp_prev_report = baseline_report, gp_key_queue = junk,
      key_queue_begin = 0, key_queue_size = 0\<rparr>"

text \<open>
  \<^verbatim>\<open>grub_usb_snes_attach\<close>, usb\_snes\_gamepad.c lines 346-520; \<^verbatim>\<open>#if ACCEPT_ANY_HID\<close> is
  the conditional on the constant. The device name is only printed.
\<close>

definition gp_grub_usb_snes_attach ::
  "attach_env \<Rightarrow> usb_device \<Rightarrow> int \<Rightarrow> int \<Rightarrow> gp_data driver \<Rightarrow> int \<times> gp_data driver" where
  "gp_grub_usb_snes_attach env dev configno ifno w =
     (let device_name = get_device_name (vendorid dev) (prodid dev) in
      if (if ACCEPT_ANY_HID then protocol dev = 0x01 else device_name = None) then (0, w)
      else
        let curnum = first_free (terms w) [0..<GAMEPADS_CAPACITY] GAMEPADS_CAPACITY in
        if curnum \<ge> GAMEPADS_CAPACITY then (0, w)
        else
          let j = find_endp (descendp dev) 0 in
          if j = length (descendp dev) then (0, w)
          else
            case malloc_res env of
              None \<Rightarrow> (0, w)
            | Some p \<Rightarrow>
                let data = gp_data_init (malloc_junk env) (dev_ptr dev) configno ifno j;
                    w = w\<lparr>mem := (mem w)(p \<mapsto> data)\<rparr>;
                    w = (case xasprintf_res env of
                           None \<Rightarrow> w
                         | Some n \<Rightarrow>
                             w\<lparr>strs := (strs w)(n \<mapsto> slot_name ''snes_gamepad'' curnum)\<rparr>);
                    w = w\<lparr>terms := (terms w)
                           (curnum := (terms w curnum)\<lparr>term_name := xasprintf_res env\<rparr>)\<rparr>
                in
                case term_name (terms w curnum) of
                  None \<Rightarrow> (0, w\<lparr>mem := (mem w)(p := None)\<rparr>)
                | Some n \<Rightarrow>
                    let w = w\<lparr>terms := (terms w)
                                (curnum := (terms w curnum)\<lparr>term_data := Some p\<rparr>)\<rparr>;
                        w = w\<lparr>mem := (mem w)(p \<mapsto> data\<lparr>gp_transfer := read_res env\<rparr>)\<rparr>
                    in
                    (case read_res env of
                       None \<Rightarrow>
                         (0, w\<lparr>strs := (strs w)(n := None),
                               terms := (terms w)
                                 (curnum := (terms w curnum)\<lparr>term_name := None\<rparr>),
                               mem := (mem w)(p := None)\<rparr>)
                     | Some t \<Rightarrow>
                         (1, w\<lparr>reads := insert t (reads w),
                               inputs := insert curnum (inputs w)\<rparr>)))"

text \<open>
  \<^verbatim>\<open>grub_usb_snes_detach\<close>, usb\_snes.c lines 225-246 and usb\_snes\_gamepad.c lines 306-340:
  the two functions are the same text over the two session types, so the loop body is written
  once, over the two fields it reads (the session's device and its transfer handle). Reading
  a session that is no longer on the heap has no defined result: \<open>None\<close>.
\<close>

definition detach_slot ::
  "('d \<Rightarrow> nat) \<Rightarrow> ('d \<Rightarrow> nat option) \<Rightarrow> nat \<Rightarrow> nat \<Rightarrow> 'd driver \<Rightarrow> 'd driver option" where
  "detach_slot dev_of transfer_of dev i w =
     (case term_data (terms w i) of
        None \<Rightarrow> Some w
      | Some p \<Rightarrow>
          (case mem w p of
             None \<Rightarrow> None
           | Some data \<Rightarrow>
               if dev_of data \<noteq> dev then Some w
               else Some (w\<lparr>reads := (case transfer_of data of
                                         None \<Rightarrow> reads w | Some t \<Rightarrow> reads w - {t}),
                            inputs := inputs w - {i},
                            strs := (case term_name (terms w i) of
                                       None \<Rightarrow> strs w | Some n \<Rightarrow> (strs w)(n := None)),
                            mem := (mem w)(p := None),
                            terms := (terms w)(i := \<lparr>term_name = None, term_data = None\<rparr>)\<rparr>)))"

fun detach_loop ::
  "('d \<Rightarrow> nat) \<Rightarrow> ('d \<Rightarrow> nat option) \<Rightarrow> nat \<Rightarrow> nat list \<Rightarrow> 'd driver \<Rightarrow> 'd driver option" where
  "detach_loop dev_of transfer_of dev [] w = Some w"
| "detach_loop dev_of transfer_of dev (i # rest) w =
     (case detach_slot dev_of transfer_of dev i w of
        None \<Rightarrow> None
      | Some w' \<Rightarrow> detach_loop dev_of transfer_of dev rest w')"

definition grub_usb_snes_detach :: "nat \<Rightarrow> snes_data driver \<Rightarrow> snes_data driver option" where
  "grub_usb_snes_detach dev w = detach_loop usbdev transfer dev [0..<MAX_GAMEPADS] w"

definition gp_grub_usb_snes_detach :: "nat \<Rightarrow> gp_data driver \<Rightarrow> gp_data driver option" where
  "gp_grub_usb_snes_detach dev w =
     detach_loop gp_usbdev gp_transfer dev [0..<GAMEPADS_CAPACITY] w"

section \<open>The notions of the specification\<close>

text \<open>
  The specification's reading of an axis byte: low below \<open>0x3F\<close>, high above \<open>0xBF\<close>,
  neutral otherwise; byte 0 gives Left (low) and Right (high), byte 1 gives Up (low) and Down
  (high), and a key is due when its signal rises from the previous report to the current one.
\<close>

datatype axis_class = Low | Neutral | High

definition classify :: "u8 \<Rightarrow> axis_class" where
  "classify v = (if uint v < 0x3F then Low else if uint v > 0xBF then High else Neutral)"

definition rising :: "bool \<Rightarrow> bool \<Rightarrow> bool" where
  "rising before now = (\<not> before \<and> now)"

definition spec_dpad_events :: "term_h \<Rightarrow> u8 list \<Rightarrow> u8 list \<Rightarrow> int list" where
  "spec_dpad_events k prv cur =
     emit (rising (classify (prv ! 1) = Low) (classify (cur ! 1) = Low)) (GRUB_TERM_KEY_UP k) @
     emit (rising (classify (prv ! 1) = High) (classify (cur ! 1) = High)) (GRUB_TERM_KEY_DOWN k) @
     emit (rising (classify (prv ! 0) = Low) (classify (cur ! 0) = Low)) (GRUB_TERM_KEY_LEFT k) @
     emit (rising (classify (prv ! 0) = High) (classify (cur ! 0) = High)) (GRUB_TERM_KEY_RIGHT k)"

text \<open>
  The buttons of byte 4, by bit number from the least significant bit, and the
  specification's table: A or B give Enter (once), Start gives Enter, Select gives Escape,
  X the edit character, Y the command character, L PageUp and R PageDown.
\<close>

datatype button = ButtonX | ButtonA | ButtonB | ButtonY | ButtonL | ButtonR | Select | Start

fun button_bit :: "button \<Rightarrow> nat" where
  "button_bit ButtonX = 0"
| "button_bit ButtonA = 1"
| "button_bit ButtonB = 2"
| "button_bit ButtonY = 3"
| "button_bit ButtonL = 4"
| "button_bit ButtonR = 5"
| "button_bit Select = 6"
| "button_bit Start = 7"

definition pressed :: "u8 \<Rightarrow> u8 \<Rightarrow> button \<Rightarrow> bool" where
  "pressed p c b = rising (bit p (button_bit b)) (bit c (button_bit b))"

definition spec_button_events :: "term_h \<Rightarrow> u8 \<Rightarrow> u8 \<Rightarrow> int list" where
  "spec_button_events k p c =
     emit (pressed p c ButtonA \<or> pressed p c ButtonB) 13 @
     emit (pressed p c Start) 13 @
     emit (pressed p c Select) (GRUB_TERM_ESC k) @
     emit (pressed p c ButtonX) 101 @
     emit (pressed p c ButtonY) 99 @
     emit (pressed p c ButtonL) (GRUB_TERM_KEY_PPAGE k) @
     emit (pressed p c ButtonR) (GRUB_TERM_KEY_NPAGE k)"

text \<open>
  The table usb\_snes\_gamepad.c works by: one entry for each button, in the order of its
  statements.
\<close>

definition gp_table_events :: "term_h \<Rightarrow> u8 \<Rightarrow> u8 \<Rightarrow> int list" where
  "gp_table_events k p c =
     emit (pressed p c ButtonA) 13 @
     emit (pressed p c ButtonB) (GRUB_TERM_ESC k) @
     emit (pressed p c ButtonX) 99 @
     emit (pressed p c ButtonY) (GRUB_TERM_ESC k) @
     emit (pressed p c Start) 13 @
     emit (pressed p c Select) 101 @
     emit (pressed p c ButtonL) (GRUB_TERM_KEY_PPAGE k) @
     emit (pressed p c ButtonR) (GRUB_TERM_KEY_NPAGE k)"

text \<open>
  The specification's detach, for comparison with the loops of the two files. A slot belongs
  to a device when it holds a session whose device pointer is that device. The slot table is
  in order when every occupied slot among the first \<open>n\<close> points to a session on the
  heap and no two of them point to the same one. Releasing a set of slots cancels the reads
  of their sessions, unregisters the slots, frees their names and sessions and clears their
  two pointers; the specification's detach releases the slots that belong to the device.
\<close>

definition slot_matches :: "('d \<Rightarrow> nat) \<Rightarrow> 'd driver \<Rightarrow> nat \<Rightarrow> nat \<Rightarrow> bool" where
  "slot_matches dev_of w dev i =
     (case term_data (terms w i) of
        None \<Rightarrow> False
      | Some p \<Rightarrow> (case mem w p of None \<Rightarrow> False | Some data \<Rightarrow> dev_of data = dev))"

definition slots_ok :: "'d driver \<Rightarrow> nat \<Rightarrow> bool" where
  "slots_ok w n =
     (\<forall>i<n. \<forall>p. term_data (terms w i) = Some p \<longrightarrow>
        mem w p \<noteq> None \<and> (\<forall>j<n. j \<noteq> i \<longrightarrow> term_data (terms w j) \<noteq> Some p))"

definition release :: "('d \<Rightarrow> nat option) \<Rightarrow> nat set \<Rightarrow> 'd driver \<Rightarrow> 'd driver" where
  "release transfer_of M w =
     w\<lparr>reads := reads w -
          {t. \<exists>i\<in>M. \<exists>p data. term_data (terms w i) = Some p \<and> mem w p = Some data \<and>
                 transfer_of data = Some t},
       inputs := inputs w - M,
       strs := (\<lambda>n. if \<exists>i\<in>M. term_name (terms w i) = Some n then None else strs w n),
       mem := (\<lambda>p. if \<exists>i\<in>M. term_data (terms w i) = Some p then None else mem w p),
       terms := (\<lambda>i. if i \<in> M then \<lparr>term_name = None, term_data = None\<rparr> else terms w i)\<rparr>"

definition detached ::
  "('d \<Rightarrow> nat) \<Rightarrow> ('d \<Rightarrow> nat option) \<Rightarrow> nat \<Rightarrow> nat set \<Rightarrow> 'd driver \<Rightarrow> 'd driver" where
  "detached dev_of transfer_of dev S w =
     release transfer_of {i \<in> S. slot_matches dev_of w dev i} w"

text \<open>The last 32 elements of a list: what an overwrite-oldest queue of capacity 32 keeps.\<close>

definition last32 :: "'a list \<Rightarrow> 'a list" where
  "last32 xs = drop (length xs - 32) xs"

section \<open>Sample inputs\<close>

text \<open>
  A fresh session of each driver, as attach leaves it (device 0, interface 0, endpoint 0, the
  gamepad's queue array zeroed), and forty distinct keys, none of them GRUB 2's
  \<^verbatim>\<open>GRUB_TERM_NO_KEY\<close>.
\<close>

definition snes_fresh :: snes_data where
  "snes_fresh = snes_data_init 0 0 0"

definition gp_fresh :: gp_data where
  "gp_fresh = gp_data_init (replicate 32 0) 0 0 0 0"

text \<open>
  Reports in which, from the centred baseline, B alone or A and B together are down; and
  reports that agree with the baseline and with the last one on bytes 0, 1 and 4 only.
\<close>

definition report_B :: "u8 list" where
  "report_B = [0x7F, 0x7F, 0x7F, 0x7F, 0x04, 0, 0, 0]"

definition report_AB :: "u8 list" where
  "report_AB = [0x7F, 0x7F, 0x7F, 0x7F, 0x06, 0, 0, 0]"

definition baseline_noise :: "u8 list" where
  "baseline_noise = [0x7F, 0x7F, 0x01, 0x02, 0x00, 0x03, 0x04, 0x05]"

definition report_AB_noise :: "u8 list" where
  "report_AB_noise = [0x7F, 0x7F, 0x09, 0x08, 0x06, 0x07, 0x06, 0x05]"

text \<open>
  Polls: sessions whose first read is in flight (handle 0), a report with the pad held to the
  left, and five answers of the USB layer: the read still pending; a short read of four
  bytes, the pad held to the left; a failed read that wrote nothing into the zeroed buffer;
  a full report, the pad held to the left; the same, after which no new read can be started.
\<close>

definition snes_armed :: snes_data where
  "snes_armed = snes_fresh\<lparr>transfer := Some 0\<rparr>"

definition gp_armed :: gp_data where
  "gp_armed = gp_fresh\<lparr>gp_transfer := Some 0\<rparr>"

definition report_left :: "u8 list" where
  "report_left = [0x00, 0x7F, 0x7F, 0x7F, 0, 0, 0, 0]"

definition zero_report :: "u8 list" where
  "zero_report = [0, 0, 0, 0, 0, 0, 0, 0]"

definition io_wait :: usb_poll where
  "io_wait = \<lparr>chk_err = GRUB_USB_ERR_WAIT, chk_actual = 0, chk_data = zero_report,
     new_transfer = None\<rparr>"

definition io_short :: usb_poll where
  "io_short = \<lparr>chk_err = GRUB_USB_ERR_NONE, chk_actual = 4, chk_data = report_left,
     new_transfer = Some 1\<rparr>"

definition io_error :: usb_poll where
  "io_error = \<lparr>chk_err = GRUB_USB_ERR_OTHER 3, chk_actual = 0, chk_data = zero_report,
     new_transfer = Some 1\<rparr>"

definition io_left :: usb_poll where
  "io_left = \<lparr>chk_err = GRUB_USB_ERR_NONE, chk_actual = 8, chk_data = report_left,
     new_transfer = Some 1\<rparr>"

definition io_left_then_fail :: usb_poll where
  "io_left_then_fail = \<lparr>chk_err = GRUB_USB_ERR_NONE, chk_actual = 8, chk_data = report_left,
     new_transfer = None\<rparr>"

text \<open>
  Attach: a gamepad on the allow-list of both drivers with one interrupt IN endpoint; the same
  device reporting the keyboard protocol; a device on neither list; and three courses of the
  allocating calls: all succeed; \<^verbatim>\<open>grub_xasprintf\<close> fails; the first read cannot be started.
\<close>

definition dev_pad :: usb_device where
  "dev_pad = \<lparr>dev_ptr = 7, vendorid = 0x0810, prodid = 0xe501, protocol = 0,
     descendp = [\<lparr>endp_addr = 0x81, ep_type = GRUB_USB_EP_INTERRUPT\<rparr>]\<rparr>"

definition dev_kbd :: usb_device where
  "dev_kbd = dev_pad\<lparr>protocol := 1\<rparr>"

definition dev_other :: usb_device where
  "dev_other = dev_pad\<lparr>vendorid := 0x1234, prodid := 0x5678\<rparr>"

definition env_ok :: attach_env where
  "env_ok = \<lparr>malloc_res = Some 100, malloc_junk = replicate 32 0, xasprintf_res = Some 200,
     read_res = Some 300\<rparr>"

definition env_no_name :: attach_env where
  "env_no_name = env_ok\<lparr>xasprintf_res := None\<rparr>"

definition env_no_read :: attach_env where
  "env_no_read = env_ok\<lparr>read_res := None\<rparr>"

text \<open>The state of each driver after that gamepad has been attached to the empty table.\<close>

definition snes_attached :: "snes_data driver" where
  "snes_attached = snd (grub_usb_snes_attach env_ok dev_pad 0 0 driver_init)"

definition gp_attached :: "gp_data driver" where
  "gp_attached = snd (gp_grub_usb_snes_attach env_ok dev_pad 0 0 driver_init)"

definition keys40 :: "int list" where
  "keys40 = map int [1..<41]"

section \<open>The key queues\<close>

lemma mod32_neq:
  assumes "i < j" "j - i < 32"
  shows "(b + i) mod 32 \<noteq> (b + j) mod (32::nat)"
proof
  assume "(b + i) mod 32 = (b + j) mod 32"
  then have "(b + j) mod 32 = (b + i) mod 32" by simp
  moreover have "b + i \<le> b + j" using assms(1) by simp
  ultimately have "32 dvd (b + j) - (b + i)" by (simp add: mod_eq_dvd_iff_nat)
  then have "32 dvd j - i" by simp
  then show False using assms by (auto dest: dvd_imp_le)
qed

lemma last32_last32_append: "last32 (last32 xs @ ys) = last32 (xs @ ys)"
proof (cases "length xs \<le> 32")
  case True
  then show ?thesis by (simp add: last32_def)
next
  case False
  then have "length xs - 32 + 32 = length xs" by simp
  then show ?thesis using False by (simp add: last32_def add.commute)
qed

subsection \<open>usb\_snes\_gamepad.c: overwrite the oldest\<close>

lemma length_gp_queue_keys: "length (gp_queue_keys d) = key_queue_size d"
  by (simp add: gp_queue_keys_def)

lemma gp_push_nokey: "gp_key_queue_push k d (GRUB_TERM_NO_KEY k) = d"
  by (simp add: gp_key_queue_push_def)

lemma gp_push_ok: "gp_queue_ok d \<Longrightarrow> gp_queue_ok (gp_key_queue_push k d key)"
  by (simp add: gp_queue_ok_def gp_key_queue_push_def KEY_QUEUE_CAPACITY_def Let_def)

lemma gp_push_room:
  assumes "gp_queue_ok d" "key \<noteq> GRUB_TERM_NO_KEY k" "key_queue_size d < 32"
  shows "gp_queue_keys (gp_key_queue_push k d key) = gp_queue_keys d @ [key]"
proof -
  let ?b = "key_queue_begin d" and ?s = "key_queue_size d" and ?q = "gp_key_queue d"
  have len: "length ?q = 32" using assms(1) by (simp add: gp_queue_ok_def KEY_QUEUE_CAPACITY_def)
  have old: "(?q[(?b + ?s) mod 32 := key]) ! ((?b + i) mod 32) = ?q ! ((?b + i) mod 32)"
    if "i < ?s" for i
  proof -
    have "(?b + i) mod 32 \<noteq> (?b + ?s) mod 32"
      using that assms(3) by (intro mod32_neq) simp_all
    then show ?thesis by (simp add: nth_list_update_neq)
  qed
  have new: "(?q[(?b + ?s) mod 32 := key]) ! ((?b + ?s) mod 32) = key"
    using len by simp
  show ?thesis
    using assms(2,3) old new
    by (simp add: gp_queue_keys_def gp_key_queue_push_def KEY_QUEUE_CAPACITY_def Let_def)
qed

lemma gp_push_full:
  assumes "gp_queue_ok d" "key \<noteq> GRUB_TERM_NO_KEY k" "key_queue_size d = 32"
  shows "gp_queue_keys (gp_key_queue_push k d key) = tl (gp_queue_keys d) @ [key]"
proof -
  let ?b = "key_queue_begin d" and ?q = "gp_key_queue d"
  have len: "length ?q = 32" and b: "?b < 32"
    using assms(1) by (simp_all add: gp_queue_ok_def KEY_QUEUE_CAPACITY_def)
  have pos: "(?b + 32) mod 32 = ?b" using b by simp
  let ?new = "map (\<lambda>i. (?q[?b := key]) ! (((?b + 1) mod 32 + i) mod 32)) [0..<32]"
  let ?old = "map (\<lambda>i. ?q ! ((?b + i) mod 32)) [0..<32]"
  have "?new = tl ?old @ [key]"
  proof (rule nth_equalityI)
    show "length ?new = length (tl ?old @ [key])" by simp
  next
    fix i assume "i < length ?new"
    then have i: "i < 32" by simp
    have idx: "((?b + 1) mod 32 + i) mod 32 = (?b + Suc i) mod 32"
      by (simp add: mod_add_left_eq)
    show "?new ! i = (tl ?old @ [key]) ! i"
    proof (cases "i = 31")
      case True
      then show ?thesis using idx len b by (simp add: nth_append)
    next
      case False
      then have i31: "i < 31" using i by simp
      have "(?b + 0) mod 32 \<noteq> (?b + Suc i) mod 32"
        using i31 by (intro mod32_neq) simp_all
      then have ne: "(?b + Suc i) mod 32 \<noteq> ?b" using b by simp
      show ?thesis using i i31 idx ne by (simp add: nth_append nth_tl)
    qed
  qed
  then show ?thesis
    using assms(2,3) pos
    by (simp add: gp_queue_keys_def gp_key_queue_push_def KEY_QUEUE_CAPACITY_def Let_def)
qed

lemma gp_push_last32:
  assumes "gp_queue_ok d" "key \<noteq> GRUB_TERM_NO_KEY k"
  shows "gp_queue_keys (gp_key_queue_push k d key) = last32 (gp_queue_keys d @ [key])"
proof (cases "key_queue_size d < 32")
  case True
  then show ?thesis using assms by (simp add: gp_push_room last32_def length_gp_queue_keys)
next
  case False
  then have s: "key_queue_size d = 32"
    using assms(1) by (simp add: gp_queue_ok_def KEY_QUEUE_CAPACITY_def)
  then have "gp_queue_keys d \<noteq> []" using length_gp_queue_keys [of d] by auto
  then have "drop 1 (gp_queue_keys d @ [key]) = tl (gp_queue_keys d) @ [key]"
    by (cases "gp_queue_keys d") simp_all
  then show ?thesis using assms s by (simp add: gp_push_full last32_def length_gp_queue_keys)
qed

lemma gp_push_all_ok: "gp_queue_ok d \<Longrightarrow> gp_queue_ok (foldl (gp_key_queue_push k) d ks)"
  by (induction ks arbitrary: d) (simp_all add: gp_push_ok)

lemma gp_push_all_keys:
  "gp_queue_ok d \<Longrightarrow>
   gp_queue_keys (foldl (gp_key_queue_push k) d ks) =
     last32 (gp_queue_keys d @ filter (\<lambda>x. x \<noteq> GRUB_TERM_NO_KEY k) ks)"
proof (induction ks arbitrary: d)
  case Nil
  then show ?case
    by (simp add: last32_def length_gp_queue_keys gp_queue_ok_def KEY_QUEUE_CAPACITY_def)
next
  case (Cons x ks)
  show ?case
  proof (cases "x = GRUB_TERM_NO_KEY k")
    case True
    then show ?thesis using Cons by (simp add: gp_push_nokey)
  next
    case False
    have "gp_queue_keys (foldl (gp_key_queue_push k) (gp_key_queue_push k d x) ks) =
          last32 (last32 (gp_queue_keys d @ [x]) @ filter (\<lambda>x. x \<noteq> GRUB_TERM_NO_KEY k) ks)"
      using Cons.IH [OF gp_push_ok [OF Cons.prems]] gp_push_last32 [OF Cons.prems False] by simp
    then show ?thesis using False by (simp add: last32_last32_append)
  qed
qed

lemma gp_push_40:
  assumes "gp_queue_ok d" "key_queue_size d = 0" "length ks = 40"
    and "GRUB_TERM_NO_KEY k \<notin> set ks"
  shows "gp_queue_keys (foldl (gp_key_queue_push k) d ks) = drop 8 ks"
proof -
  have "filter (\<lambda>x. x \<noteq> GRUB_TERM_NO_KEY k) ks = ks"
    using assms(4) by (auto simp add: filter_id_conv)
  moreover have "gp_queue_keys d = []"
    using assms(2) length_gp_queue_keys [of d] by simp
  ultimately show ?thesis
    using gp_push_all_keys [OF assms(1), of k ks] assms(3) by (simp add: last32_def)
qed

lemma gp_pop_empty: "key_queue_size d = 0 \<Longrightarrow> gp_key_queue_pop k d = (GRUB_TERM_NO_KEY k, d)"
  by (simp add: gp_key_queue_pop_def)

lemma gp_pop_head:
  assumes "gp_queue_ok d" "key_queue_size d > 0"
  shows "fst (gp_key_queue_pop k d) = hd (gp_queue_keys d)"
    and "gp_queue_keys (snd (gp_key_queue_pop k d)) = tl (gp_queue_keys d)"
    and "gp_queue_ok (snd (gp_key_queue_pop k d))"
proof -
  let ?b = "key_queue_begin d" and ?s = "key_queue_size d"
  have b: "?b < 32" using assms(1) by (simp add: gp_queue_ok_def KEY_QUEUE_CAPACITY_def)
  have "[0..<?s] = 0 # [1..<?s]" using assms(2) by (simp add: upt_conv_Cons)
  then show "fst (gp_key_queue_pop k d) = hd (gp_queue_keys d)"
    using assms(2) b
    by (simp add: gp_key_queue_pop_def gp_queue_keys_def KEY_QUEUE_CAPACITY_def)
  have idx: "((?b + 1) mod 32 + i) mod 32 = (?b + Suc i) mod 32" for i
    by (simp add: mod_add_left_eq)
  show "gp_queue_keys (snd (gp_key_queue_pop k d)) = tl (gp_queue_keys d)"
    using assms(2) idx
    by (intro nth_equalityI)
       (simp_all add: gp_key_queue_pop_def gp_queue_keys_def KEY_QUEUE_CAPACITY_def nth_tl
          less_diff_conv)
  show "gp_queue_ok (snd (gp_key_queue_pop k d))"
    using assms
    by (auto simp add: gp_key_queue_pop_def gp_queue_ok_def KEY_QUEUE_CAPACITY_def)
qed

subsection \<open>usb\_snes.c: drop the newest\<close>

lemma length_queue_keys: "length (queue_keys d) = key_queue_count d"
  by (simp add: queue_keys_def)

lemma push_nokey: "key_queue_push k d (GRUB_TERM_NO_KEY k) = d"
  by (simp add: key_queue_push_def)

lemma push_full: "key_queue_count d \<ge> 32 \<Longrightarrow> key_queue_push k d key = d"
  by (simp add: key_queue_push_def)

lemma push_ok: "queue_ok d \<Longrightarrow> queue_ok (key_queue_push k d key)"
  by (simp add: queue_ok_def key_queue_push_def mod_simps)

lemma push_room:
  assumes "queue_ok d" "key \<noteq> GRUB_TERM_NO_KEY k" "key_queue_count d < 32"
  shows "queue_keys (key_queue_push k d key) = queue_keys d @ [key]"
proof -
  let ?h = "key_queue_head d" and ?c = "key_queue_count d" and ?q = "key_queue d"
  have len: "length ?q = 32" and t: "key_queue_tail d = (?h + ?c) mod 32"
    using assms(1) by (simp_all add: queue_ok_def)
  have old: "(?q[(?h + ?c) mod 32 := key]) ! ((?h + i) mod 32) = ?q ! ((?h + i) mod 32)"
    if "i < ?c" for i
  proof -
    have "(?h + i) mod 32 \<noteq> (?h + ?c) mod 32"
      using that assms(3) by (intro mod32_neq) simp_all
    then show ?thesis by (simp add: nth_list_update_neq)
  qed
  have new: "(?q[(?h + ?c) mod 32 := key]) ! ((?h + ?c) mod 32) = key"
    using len by simp
  show ?thesis
    using assms(2,3) old new t
    by (simp add: queue_keys_def key_queue_push_def)
qed

lemma push_take32:
  assumes "queue_ok d"
  shows "queue_keys (foldl (key_queue_push k) d ks) =
         take 32 (queue_keys d @ filter (\<lambda>x. x \<noteq> GRUB_TERM_NO_KEY k) ks)"
  using assms
proof (induction ks arbitrary: d)
  case Nil
  then show ?case by (simp add: length_queue_keys queue_ok_def)
next
  case (Cons x ks)
  have ok: "queue_ok (key_queue_push k d x)" using Cons.prems by (rule push_ok)
  consider "x = GRUB_TERM_NO_KEY k" | "x \<noteq> GRUB_TERM_NO_KEY k" "key_queue_count d < 32"
    | "x \<noteq> GRUB_TERM_NO_KEY k" "key_queue_count d \<ge> 32" by linarith
  then show ?case
  proof cases
    case 1
    then show ?thesis using Cons by (simp add: push_nokey)
  next
    case 2
    then show ?thesis using Cons.IH [OF ok] Cons.prems by (simp add: push_room)
  next
    case 3
    then have "length (queue_keys d) \<ge> 32" by (simp add: length_queue_keys)
    then show ?thesis using 3 Cons by (simp add: push_full)
  qed
qed

lemma pop_empty: "key_queue_count d = 0 \<Longrightarrow> key_queue_pop k d = (GRUB_TERM_NO_KEY k, d)"
  by (simp add: key_queue_pop_def)

lemma pop_head:
  assumes "queue_ok d" "key_queue_count d > 0"
  shows "fst (key_queue_pop k d) = hd (queue_keys d)"
    and "queue_keys (snd (key_queue_pop k d)) = tl (queue_keys d)"
    and "queue_ok (snd (key_queue_pop k d))"
proof -
  let ?h = "key_queue_head d" and ?c = "key_queue_count d"
  have h: "?h < 32" using assms(1) by (simp add: queue_ok_def)
  have "[0..<?c] = 0 # [1..<?c]" using assms(2) by (simp add: upt_conv_Cons)
  then show "fst (key_queue_pop k d) = hd (queue_keys d)"
    using assms(2) h by (simp add: key_queue_pop_def queue_keys_def)
  have idx: "((?h + 1) mod 32 + i) mod 32 = (?h + Suc i) mod 32" for i
    by (simp add: mod_add_left_eq)
  show "queue_keys (snd (key_queue_pop k d)) = tl (queue_keys d)"
    using assms(2) idx
    by (intro nth_equalityI)
       (simp_all add: key_queue_pop_def queue_keys_def nth_tl less_diff_conv)
  obtain c' where c: "?c = Suc c'" using assms(2) by (cases ?c) auto
  have "((?h + 1) mod 32 + (?c - 1)) mod 32 = (?h + ?c) mod 32"
    using idx [of c'] c by simp
  then show "queue_ok (snd (key_queue_pop k d))"
    using assms by (auto simp add: key_queue_pop_def queue_ok_def)
qed

lemma snes_data_init_queue:
  "queue_ok (snes_data_init dev ifno ep)" "queue_keys (snes_data_init dev ifno ep) = []"
  "key_queue_count (snes_data_init dev ifno ep) = 0"
  by (simp_all add: snes_data_init_def queue_ok_def queue_keys_def)

lemma gp_data_init_queue:
  "length junk = 32 \<Longrightarrow> gp_queue_ok (gp_data_init junk dev cfgno ifno ep)"
  "gp_queue_keys (gp_data_init junk dev cfgno ifno ep) = []"
  "key_queue_size (gp_data_init junk dev cfgno ifno ep) = 0"
  by (simp_all add: gp_data_init_def gp_queue_ok_def gp_queue_keys_def KEY_QUEUE_CAPACITY_def)

lemma keys40_facts:
  "length keys40 = 40" "distinct keys40" "GRUB_TERM_NO_KEY grub2_term_h \<notin> set keys40"
  by (auto simp add: keys40_def grub2_term_h_def distinct_map)

text \<open>
  C1 (as amended). In usb\_snes\_gamepad.c a push of \<^verbatim>\<open>GRUB_TERM_NO_KEY\<close> changes nothing
  and any other key goes to the tail, the oldest key being dropped when the queue holds 32:
  the queue never refuses a key, and 40 distinct keys pushed into an empty queue leave the
  last 32 in the order they were pushed; pop hands the keys out oldest first. In usb\_snes.c
  a push of \<^verbatim>\<open>GRUB_TERM_NO_KEY\<close> changes nothing, a key pushed while there is room goes to
  the tail, and a key pushed into a queue that holds 32 is dropped: the queue stays as it
  is. In both files pop on an empty queue returns \<^verbatim>\<open>GRUB_TERM_NO_KEY\<close> and changes nothing.
\<close>

theorem ring_queue_push_by_variant:
  "gp_key_queue_push k g (GRUB_TERM_NO_KEY k) = g \<and>
   (gp_queue_ok g \<and> key \<noteq> GRUB_TERM_NO_KEY k \<longrightarrow>
      gp_queue_ok (gp_key_queue_push k g key) \<and>
      gp_queue_keys (gp_key_queue_push k g key) =
        (if key_queue_size g < 32 then gp_queue_keys g @ [key]
         else tl (gp_queue_keys g) @ [key])) \<and>
   (gp_queue_ok g \<longrightarrow>
      gp_queue_keys (foldl (gp_key_queue_push k) g ks) =
        last32 (gp_queue_keys g @ filter (\<lambda>x. x \<noteq> GRUB_TERM_NO_KEY k) ks)) \<and>
   (gp_queue_ok g \<and> key_queue_size g = 0 \<and> length ks = 40 \<and> distinct ks \<and>
    GRUB_TERM_NO_KEY k \<notin> set ks \<longrightarrow>
      gp_queue_keys (foldl (gp_key_queue_push k) g ks) = drop 8 ks) \<and>
   (gp_queue_ok h \<and> key_queue_size h > 0 \<longrightarrow>
      fst (gp_key_queue_pop k h) = hd (gp_queue_keys h) \<and>
      gp_queue_keys (snd (gp_key_queue_pop k h)) = tl (gp_queue_keys h)) \<and>
   (key_queue_size g = 0 \<longrightarrow> gp_key_queue_pop k g = (GRUB_TERM_NO_KEY k, g)) \<and>
   key_queue_push k d (GRUB_TERM_NO_KEY k) = d \<and>
   (queue_ok d \<and> key \<noteq> GRUB_TERM_NO_KEY k \<and> key_queue_count d < 32 \<longrightarrow>
      queue_keys (key_queue_push k d key) = queue_keys d @ [key]) \<and>
   (key_queue_count f \<ge> 32 \<longrightarrow> key_queue_push k f key = f) \<and>
   (key_queue_count d = 0 \<longrightarrow> key_queue_pop k d = (GRUB_TERM_NO_KEY k, d))"
proof -
  have c1: "gp_key_queue_push k g (GRUB_TERM_NO_KEY k) = g" by (rule gp_push_nokey)
  have c2: "gp_queue_ok (gp_key_queue_push k g key) \<and>
      gp_queue_keys (gp_key_queue_push k g key) =
        (if key_queue_size g < 32 then gp_queue_keys g @ [key]
         else tl (gp_queue_keys g) @ [key])"
    if "gp_queue_ok g \<and> key \<noteq> GRUB_TERM_NO_KEY k"
  proof (cases "key_queue_size g < 32")
    case True
    then show ?thesis using that by (simp add: gp_push_ok gp_push_room)
  next
    case False
    then have "key_queue_size g = 32"
      using that by (simp add: gp_queue_ok_def KEY_QUEUE_CAPACITY_def)
    then show ?thesis using that by (simp add: gp_push_ok gp_push_full)
  qed
  have c3: "gp_queue_keys (foldl (gp_key_queue_push k) g ks) =
        last32 (gp_queue_keys g @ filter (\<lambda>x. x \<noteq> GRUB_TERM_NO_KEY k) ks)"
    if "gp_queue_ok g" using that by (rule gp_push_all_keys)
  have c4: "gp_queue_keys (foldl (gp_key_queue_push k) g ks) = drop 8 ks"
    if "gp_queue_ok g \<and> key_queue_size g = 0 \<and> length ks = 40 \<and> distinct ks \<and>
        GRUB_TERM_NO_KEY k \<notin> set ks"
    using that by (intro gp_push_40) simp_all
  have c5: "fst (gp_key_queue_pop k h) = hd (gp_queue_keys h) \<and>
      gp_queue_keys (snd (gp_key_queue_pop k h)) = tl (gp_queue_keys h)"
    if "gp_queue_ok h \<and> key_queue_size h > 0"
    using that by (simp add: gp_pop_head)
  have c6: "gp_key_queue_pop k g = (GRUB_TERM_NO_KEY k, g)" if "key_queue_size g = 0"
    using that by (rule gp_pop_empty)
  have c7: "key_queue_push k d (GRUB_TERM_NO_KEY k) = d" by (rule push_nokey)
  have c8: "queue_keys (key_queue_push k d key) = queue_keys d @ [key]"
    if "queue_ok d \<and> key \<noteq> GRUB_TERM_NO_KEY k \<and> key_queue_count d < 32"
    using that by (simp add: push_room)
  have c9: "key_queue_push k f key = f" if "key_queue_count f \<ge> 32"
    using that by (rule push_full)
  have c10: "key_queue_pop k d = (GRUB_TERM_NO_KEY k, d)" if "key_queue_count d = 0"
    using that by (rule pop_empty)
  from c1 c2 c3 c4 c5 c6 c7 c8 c9 c10 show ?thesis by blast
qed

theorem ring_queue_push_by_variant_witness:
  "gp_queue_ok gp_fresh \<and> (13::int) \<noteq> GRUB_TERM_NO_KEY grub2_term_h \<and>
   key_queue_size gp_fresh = 0 \<and>
   length keys40 = 40 \<and> distinct keys40 \<and> GRUB_TERM_NO_KEY grub2_term_h \<notin> set keys40 \<and>
   gp_queue_keys (foldl (gp_key_queue_push grub2_term_h) gp_fresh keys40) = drop 8 keys40 \<and>
   gp_queue_keys (gp_key_queue_push grub2_term_h gp_fresh 13) = [13] \<and>
   gp_queue_ok (gp_fresh\<lparr>key_queue_size := 32\<rparr>) \<and>
   key_queue_size (gp_fresh\<lparr>key_queue_size := 32\<rparr>) > 0 \<and>
   fst (gp_key_queue_pop grub2_term_h (gp_fresh\<lparr>key_queue_size := 32\<rparr>))
     = hd (gp_queue_keys (gp_fresh\<lparr>key_queue_size := 32\<rparr>)) \<and>
   gp_key_queue_pop grub2_term_h gp_fresh = (GRUB_TERM_NO_KEY grub2_term_h, gp_fresh) \<and>
   queue_ok snes_fresh \<and> key_queue_count snes_fresh < 32 \<and>
   queue_keys (key_queue_push grub2_term_h snes_fresh 13) = [13] \<and>
   key_queue_count (snes_fresh\<lparr>key_queue_count := 32\<rparr>) \<ge> 32 \<and>
   key_queue_push grub2_term_h (snes_fresh\<lparr>key_queue_count := 32\<rparr>) 13
     = snes_fresh\<lparr>key_queue_count := 32\<rparr> \<and>
   key_queue_count snes_fresh = 0 \<and>
   key_queue_pop grub2_term_h snes_fresh = (GRUB_TERM_NO_KEY grub2_term_h, snes_fresh)"
proof -
  let ?h = "gp_fresh\<lparr>key_queue_size := 32\<rparr>"
  let ?f = "snes_fresh\<lparr>key_queue_count := 32\<rparr>"
  note T = ring_queue_push_by_variant [of grub2_term_h gp_fresh 13 keys40 ?h snes_fresh ?f]
  have g: "gp_queue_ok gp_fresh" "key_queue_size gp_fresh = 0" "gp_queue_keys gp_fresh = []"
    by (simp_all add: gp_fresh_def gp_data_init_queue)
  have h: "gp_queue_ok ?h" "key_queue_size ?h > 0"
    by (simp_all add: gp_fresh_def gp_data_init_def gp_queue_ok_def KEY_QUEUE_CAPACITY_def)
  have d: "queue_ok snes_fresh" "key_queue_count snes_fresh = 0" "queue_keys snes_fresh = []"
    "key_queue_count snes_fresh < 32"
    by (simp_all add: snes_fresh_def snes_data_init_queue)
  have f: "key_queue_count ?f \<ge> 32" by simp
  have key: "(13::int) \<noteq> GRUB_TERM_NO_KEY grub2_term_h" by (simp add: grub2_term_h_def)
  have "gp_queue_keys (gp_key_queue_push grub2_term_h gp_fresh 13) =
        (if key_queue_size gp_fresh < 32 then gp_queue_keys gp_fresh @ [13]
         else tl (gp_queue_keys gp_fresh) @ [13])"
    using T g(1) key by blast
  then have r1: "gp_queue_keys (gp_key_queue_push grub2_term_h gp_fresh 13) = [13]"
    using g by simp
  have r2: "gp_queue_keys (foldl (gp_key_queue_push grub2_term_h) gp_fresh keys40) = drop 8 keys40"
    using T g keys40_facts by blast
  have r3: "fst (gp_key_queue_pop grub2_term_h ?h) = hd (gp_queue_keys ?h)"
    using T h by blast
  have r4: "gp_key_queue_pop grub2_term_h gp_fresh = (GRUB_TERM_NO_KEY grub2_term_h, gp_fresh)"
    using T g(2) by blast
  have "queue_keys (key_queue_push grub2_term_h snes_fresh 13) = queue_keys snes_fresh @ [13]"
    using T d(1,4) key by blast
  then have r5: "queue_keys (key_queue_push grub2_term_h snes_fresh 13) = [13]"
    using d(3) by simp
  have r6: "key_queue_push grub2_term_h ?f 13 = ?f"
    using T f by blast
  have r7: "key_queue_pop grub2_term_h snes_fresh = (GRUB_TERM_NO_KEY grub2_term_h, snes_fresh)"
    using T d(2) by blast
  from g(1,2) h d(1,2,4) f key keys40_facts r1 r2 r3 r4 r5 r6 r7 show ?thesis by blast
qed

text \<open>
  C1 as stated fails on usb\_snes.c: 40 distinct keys pushed into the empty queue of a fresh
  session leave the first 32, not the last 32.
\<close>

theorem ring_queue_push_counterexample:
  "queue_keys (foldl (key_queue_push grub2_term_h) snes_fresh keys40) = take 32 keys40 \<and>
   take 32 keys40 \<noteq> drop 8 keys40"
proof -
  have "filter (\<lambda>x. x \<noteq> GRUB_TERM_NO_KEY grub2_term_h) keys40 = keys40"
    using keys40_facts(3) by (auto simp add: filter_id_conv)
  then have "queue_keys (foldl (key_queue_push grub2_term_h) snes_fresh keys40)
             = take 32 keys40"
    using push_take32 [of snes_fresh grub2_term_h keys40]
    by (simp add: snes_fresh_def snes_data_init_queue)
  moreover have "hd (take 32 keys40) \<noteq> hd (drop 8 keys40)"
    by (simp add: keys40_def hd_drop_conv_nth hd_conv_nth)
  ultimately show ?thesis by metis
qed

section \<open>The codecs\<close>

lemma foldl_emit: "foldl (key_queue_push k) d (emit c key) = push_if k c key d"
  by (simp add: push_if_def emit_def)

lemma gp_foldl_emit: "foldl (gp_key_queue_push k) d (emit c key) = gp_push_if k c key d"
  by (simp add: gp_push_if_def emit_def)

lemma push_if_reports:
  "report (push_if k c key d) = report d" "prev_report (push_if k c key d) = prev_report d"
  by (simp_all add: push_if_def key_queue_push_def)

lemma gp_push_if_reports:
  "gp_report (gp_push_if k c key d) = gp_report d"
  "gp_prev_report (gp_push_if k c key d) = gp_prev_report d"
  by (simp_all add: gp_push_if_def gp_key_queue_push_def Let_def)

lemma parse_snes_report_pushes:
  "parse_snes_report k d = foldl (key_queue_push k) d (snes_keys k (prev_report d) (report d))"
  by (simp add: parse_snes_report_def Let_def snes_keys_def dpad_keys_def snes_button_keys_def
      BTN_PRESSED_def foldl_emit)

lemma gp_process_report_pushes:
  "gp_process_report k d =
     foldl (gp_key_queue_push k) d (gp_keys k (gp_prev_report d) (gp_report d))"
  by (simp add: gp_process_report_def Let_def gp_keys_def dpad_keys_def gp_button_keys_def
      gp_foldl_emit key_up_def key_down_def key_left_def key_right_def)

lemma push_reports_commute:
  "key_queue_push k (d\<lparr>prev_report := p, report := c\<rparr>) key =
     (key_queue_push k d key)\<lparr>prev_report := p, report := c\<rparr>"
  by (simp add: key_queue_push_def)

lemma gp_push_reports_commute:
  "gp_key_queue_push k (d\<lparr>gp_prev_report := p, gp_report := c\<rparr>) key =
     (gp_key_queue_push k d key)\<lparr>gp_prev_report := p, gp_report := c\<rparr>"
  by (simp add: gp_key_queue_push_def Let_def)

lemma foldl_push_reports_commute:
  "foldl (key_queue_push k) (d\<lparr>prev_report := p, report := c\<rparr>) ks =
     (foldl (key_queue_push k) d ks)\<lparr>prev_report := p, report := c\<rparr>"
  by (induction ks arbitrary: d) (simp_all add: push_reports_commute)

lemma gp_foldl_push_reports_commute:
  "foldl (gp_key_queue_push k) (d\<lparr>gp_prev_report := p, gp_report := c\<rparr>) ks =
     (foldl (gp_key_queue_push k) d ks)\<lparr>gp_prev_report := p, gp_report := c\<rparr>"
  by (induction ks arbitrary: d) (simp_all add: gp_push_reports_commute)

lemma parse_snes_report_of_reports:
  "parse_snes_report k (d\<lparr>prev_report := p, report := c\<rparr>) =
     (foldl (key_queue_push k) d (snes_keys k p c))\<lparr>prev_report := p, report := c\<rparr>"
  by (simp add: parse_snes_report_pushes foldl_push_reports_commute)

lemma gp_process_report_of_reports:
  "gp_process_report k (d\<lparr>gp_prev_report := p, gp_report := c\<rparr>) =
     (foldl (gp_key_queue_push k) d (gp_keys k p c))\<lparr>gp_prev_report := p, gp_report := c\<rparr>"
  by (simp add: gp_process_report_pushes gp_foldl_push_reports_commute)

subsection \<open>The codecs against the specification's tables\<close>

lemma classify_Low: "(classify v = Low) = (uint v < AXIS_CENTER - AXIS_THRESHOLD)"
  by (simp add: classify_def AXIS_CENTER_def AXIS_THRESHOLD_def)

lemma classify_High: "(classify v = High) = (uint v > AXIS_CENTER + AXIS_THRESHOLD)"
  by (auto simp add: classify_def AXIS_CENTER_def AXIS_THRESHOLD_def)

lemma dpad_keys_spec: "dpad_keys k prv cur = spec_dpad_events k prv cur"
  by (simp add: dpad_keys_def spec_dpad_events_def rising_def classify_Low classify_High)

lemma BTN_PRESSED_bit: "BTN_PRESSED p c (push_bit n 1) = rising (bit p n) (bit c n)"
  by (simp add: BTN_PRESSED_def rising_def bit_iff_and_push_bit_not_eq_0)

lemma BTN_PRESSED_masks:
  "BTN_PRESSED p c 0x01 = pressed p c ButtonX" "BTN_PRESSED p c 0x02 = pressed p c ButtonA"
  "BTN_PRESSED p c 0x04 = pressed p c ButtonB" "BTN_PRESSED p c 0x08 = pressed p c ButtonY"
  "BTN_PRESSED p c 0x10 = pressed p c ButtonL" "BTN_PRESSED p c 0x20 = pressed p c ButtonR"
  "BTN_PRESSED p c 0x40 = pressed p c Select" "BTN_PRESSED p c 0x80 = pressed p c Start"
  using BTN_PRESSED_bit [of p c 0] BTN_PRESSED_bit [of p c 1] BTN_PRESSED_bit [of p c 2]
    BTN_PRESSED_bit [of p c 3] BTN_PRESSED_bit [of p c 4] BTN_PRESSED_bit [of p c 5]
    BTN_PRESSED_bit [of p c 6] BTN_PRESSED_bit [of p c 7]
  by (simp_all add: pressed_def)

lemma BTN_PRESSED_names:
  "BTN_PRESSED p c BTN_X = pressed p c ButtonX" "BTN_PRESSED p c BTN_A = pressed p c ButtonA"
  "BTN_PRESSED p c BTN_B = pressed p c ButtonB" "BTN_PRESSED p c BTN_Y = pressed p c ButtonY"
  "BTN_PRESSED p c BTN_L = pressed p c ButtonL" "BTN_PRESSED p c BTN_R = pressed p c ButtonR"
  "BTN_PRESSED p c BTN_SELECT = pressed p c Select"
  "BTN_PRESSED p c BTN_START = pressed p c Start"
  by (simp_all only: BTN_X_def BTN_A_def BTN_B_def BTN_Y_def BTN_L_def BTN_R_def BTN_SELECT_def
    BTN_START_def pressed_def BTN_PRESSED_bit button_bit.simps)

lemma snes_button_keys_spec: "snes_button_keys k p c = spec_button_events k p c"
  by (simp only: snes_button_keys_def spec_button_events_def BTN_PRESSED_masks)

lemma gp_button_keys_table: "gp_button_keys k p c = gp_table_events k p c"
  by (simp only: gp_button_keys_def gp_table_events_def BTN_PRESSED_names
      key_a_def key_b_def key_x_def key_y_def key_start_def key_select_def key_l_def key_r_def)

lemma snes_keys_same: "snes_keys k r r = []"
  by (simp add: snes_keys_def dpad_keys_def snes_button_keys_def emit_def BTN_PRESSED_def)

lemma gp_keys_same: "gp_keys k r r = []"
  by (simp add: gp_keys_def dpad_keys_def gp_button_keys_def emit_def BTN_PRESSED_def)

lemma keys_bytes_014:
  assumes "p1 ! 0 = p2 ! 0" "p1 ! 1 = p2 ! 1" "p1 ! 4 = p2 ! 4"
    and "c1 ! 0 = c2 ! 0" "c1 ! 1 = c2 ! 1" "c1 ! 4 = c2 ! 4"
  shows "snes_keys k p1 c1 = snes_keys k p2 c2" "gp_keys k p1 c1 = gp_keys k p2 c2"
  using assms by (simp_all add: snes_keys_def gp_keys_def dpad_keys_def)

lemma sample_AB:
  "snes_keys grub2_term_h baseline_report report_AB = [13]"
  "gp_keys grub2_term_h baseline_report report_AB = [13, 0x1b]"
  "gp_keys grub2_term_h baseline_report report_B = [0x1b]"
  by (simp_all add: snes_keys_def gp_keys_def dpad_keys_def snes_button_keys_def
      gp_button_keys_def baseline_report_def report_AB_def report_B_def emit_def
      BTN_PRESSED_def AXIS_CENTER_def AXIS_THRESHOLD_def grub2_term_h_def
      BTN_X_def BTN_A_def BTN_B_def BTN_Y_def BTN_L_def BTN_R_def BTN_SELECT_def
      BTN_START_def key_a_def key_b_def key_x_def key_y_def key_start_def key_select_def
      key_l_def key_r_def)

lemma sample_queues:
  "queue_keys (parse_snes_report grub2_term_h (snes_fresh\<lparr>report := report_AB\<rparr>)) = [13]"
  "gp_queue_keys (gp_process_report grub2_term_h (gp_fresh\<lparr>gp_report := report_AB\<rparr>))
     = [13, 0x1b]"
  "gp_queue_keys (gp_process_report grub2_term_h (gp_fresh\<lparr>gp_report := report_B\<rparr>)) = [0x1b]"
proof -
  have nk: "GRUB_TERM_NO_KEY grub2_term_h = 0" by (simp add: grub2_term_h_def)
  let ?s = "snes_fresh\<lparr>report := report_AB\<rparr>"
  have s: "queue_ok ?s" "queue_keys ?s = []" "prev_report ?s = baseline_report"
    "report ?s = report_AB"
    by (simp_all add: snes_fresh_def snes_data_init_def queue_ok_def queue_keys_def
        baseline_report_def)
  have "parse_snes_report grub2_term_h ?s = foldl (key_queue_push grub2_term_h) ?s [13]"
    by (simp only: parse_snes_report_pushes s sample_AB)
  moreover have "queue_keys (foldl (key_queue_push grub2_term_h) ?s [13]) = [13]"
    by (simp only: push_take32 [OF s(1)] s(2) nk) simp
  ultimately show "queue_keys (parse_snes_report grub2_term_h ?s) = [13]" by (simp only:)
  have g: "gp_queue_ok (gp_fresh\<lparr>gp_report := r\<rparr>)" "gp_queue_keys (gp_fresh\<lparr>gp_report := r\<rparr>) = []"
    "gp_prev_report (gp_fresh\<lparr>gp_report := r\<rparr>) = baseline_report"
    "gp_report (gp_fresh\<lparr>gp_report := r\<rparr>) = r" for r
    by (simp_all add: gp_fresh_def gp_data_init_def gp_queue_ok_def gp_queue_keys_def
        KEY_QUEUE_CAPACITY_def)
  let ?g = "gp_fresh\<lparr>gp_report := report_AB\<rparr>"
  have "gp_process_report grub2_term_h ?g = foldl (gp_key_queue_push grub2_term_h) ?g [13, 0x1b]"
    by (simp only: gp_process_report_pushes g sample_AB)
  moreover have "gp_queue_keys (foldl (gp_key_queue_push grub2_term_h) ?g [13, 0x1b]) = [13, 0x1b]"
    by (simp only: gp_push_all_keys [OF g(1)] g(2) nk) (simp add: last32_def)
  ultimately show "gp_queue_keys (gp_process_report grub2_term_h ?g) = [13, 0x1b]"
    by (simp only:)
  let ?b = "gp_fresh\<lparr>gp_report := report_B\<rparr>"
  have "gp_process_report grub2_term_h ?b = foldl (gp_key_queue_push grub2_term_h) ?b [0x1b]"
    by (simp only: gp_process_report_pushes g sample_AB)
  moreover have "gp_queue_keys (foldl (gp_key_queue_push grub2_term_h) ?b [0x1b]) = [0x1b]"
    by (simp only: gp_push_all_keys [OF g(1)] g(2) nk) (simp add: last32_def)
  ultimately show "gp_queue_keys (gp_process_report grub2_term_h ?b) = [0x1b]"
    by (simp only:)
qed

text \<open>
  C4 (as amended). In usb\_snes.c the rising edges of the eight buttons of byte 4 are mapped
  as the specification's table says: A or B give one Enter, also when both rise in the same
  report; Start gives Enter, Select Escape, X the character e, Y the character c, L PageUp
  and R PageDown. In usb\_snes\_gamepad.c every button has an entry of its own: A gives Enter,
  B Escape, X the character c, Y Escape, Start Enter, Select the character e, L PageUp and
  R PageDown, so that A and B rising together give Enter and then Escape.
\<close>

theorem button_table_by_variant:
  "parse_snes_report k d =
     foldl (key_queue_push k) d
       (spec_dpad_events k (prev_report d) (report d) @
        spec_button_events k (prev_report d ! 4) (report d ! 4)) \<and>
   gp_process_report k g =
     foldl (gp_key_queue_push k) g
       (spec_dpad_events k (gp_prev_report g) (gp_report g) @
        gp_table_events k (gp_prev_report g ! 4) (gp_report g ! 4)) \<and>
   queue_keys (parse_snes_report grub2_term_h (snes_fresh\<lparr>report := report_AB\<rparr>)) = [13] \<and>
   gp_queue_keys (gp_process_report grub2_term_h (gp_fresh\<lparr>gp_report := report_AB\<rparr>))
     = [13, GRUB_TERM_ESC grub2_term_h]"
proof -
  have "snes_keys k (prev_report d) (report d) =
        spec_dpad_events k (prev_report d) (report d) @
        spec_button_events k (prev_report d ! 4) (report d ! 4)"
    by (simp add: snes_keys_def dpad_keys_spec snes_button_keys_spec)
  moreover have "gp_keys k (gp_prev_report g) (gp_report g) =
        spec_dpad_events k (gp_prev_report g) (gp_report g) @
        gp_table_events k (gp_prev_report g ! 4) (gp_report g ! 4)"
    by (simp add: gp_keys_def dpad_keys_spec gp_button_keys_table)
  moreover have "GRUB_TERM_ESC grub2_term_h = 0x1b" by (simp add: grub2_term_h_def)
  ultimately show ?thesis
    by (simp only: parse_snes_report_pushes [of k d] gp_process_report_pushes [of k g]
        sample_queues simp_thms)
qed

text \<open>
  C4 as stated fails on usb\_snes\_gamepad.c: from the baseline, B alone gives Escape, and A
  and B together give two keys, Enter and Escape.
\<close>

theorem button_table_counterexample:
  "gp_queue_keys (gp_process_report grub2_term_h (gp_fresh\<lparr>gp_report := report_B\<rparr>))
     = [GRUB_TERM_ESC grub2_term_h] \<and>
   gp_queue_keys (gp_process_report grub2_term_h (gp_fresh\<lparr>gp_report := report_AB\<rparr>))
     = [13, GRUB_TERM_ESC grub2_term_h] \<and>
   GRUB_TERM_ESC grub2_term_h \<noteq> 13"
proof -
  have "GRUB_TERM_ESC grub2_term_h = 0x1b" by (simp add: grub2_term_h_def)
  then show ?thesis by (simp only: sample_queues) simp
qed

text \<open>
  C5. Both codecs push nothing when the previous and the current report are the same bytes:
  the session comes back unchanged.
\<close>

theorem codec_same_report_no_events:
  "snes_keys k r r = [] \<and> gp_keys k r r = [] \<and>
   parse_snes_report k (d\<lparr>prev_report := r, report := r\<rparr>) = d\<lparr>prev_report := r, report := r\<rparr> \<and>
   gp_process_report k (g\<lparr>gp_prev_report := r, gp_report := r\<rparr>)
     = g\<lparr>gp_prev_report := r, gp_report := r\<rparr>"
  by (simp add: parse_snes_report_of_reports gp_process_report_of_reports snes_keys_same
      gp_keys_same)

text \<open>
  C6. The comparisons both codecs make on an axis byte are the specification's classes: low
  exactly below \<open>0x3F\<close>, high exactly above \<open>0xBF\<close>, neutral between (so \<open>0x3E\<close> is low,
  \<open>0x3F\<close> and \<open>0xBF\<close> are neutral, \<open>0xC0\<close> is high), and the direction keys both codecs
  push are the rising edges of Up and Down on byte 1 and of Left and Right on byte 0.
\<close>

theorem axis_classification:
  "(uint v < AXIS_CENTER - AXIS_THRESHOLD) = (classify v = Low) \<and>
   (uint v > AXIS_CENTER + AXIS_THRESHOLD) = (classify v = High) \<and>
   (classify v = Low) = (uint v < 0x3F) \<and> (classify v = High) = (uint v > 0xBF) \<and>
   (classify v = Neutral) = (0x3F \<le> uint v \<and> uint v \<le> 0xBF) \<and>
   classify 0x3E = Low \<and> classify 0x3F = Neutral \<and> classify 0xBF = Neutral \<and>
   classify 0xC0 = High \<and>
   parse_snes_report k d =
     foldl (key_queue_push k) d
       (spec_dpad_events k (prev_report d) (report d) @
        snes_button_keys k (prev_report d ! 4) (report d ! 4)) \<and>
   gp_process_report k g =
     foldl (gp_key_queue_push k) g
       (spec_dpad_events k (gp_prev_report g) (gp_report g) @
        gp_button_keys k (gp_prev_report g ! 4) (gp_report g ! 4))"
proof -
  have a: "(classify v = Low) = (uint v < 0x3F)" "(classify v = High) = (uint v > 0xBF)"
    "(classify v = Neutral) = (0x3F \<le> uint v \<and> uint v \<le> 0xBF)"
    by (auto simp add: classify_def)
  have b: "classify 0x3E = Low" "classify 0x3F = Neutral" "classify 0xBF = Neutral"
    "classify 0xC0 = High"
    by (simp_all add: classify_def)
  have c: "parse_snes_report k d =
     foldl (key_queue_push k) d
       (spec_dpad_events k (prev_report d) (report d) @
        snes_button_keys k (prev_report d ! 4) (report d ! 4))"
    by (simp only: parse_snes_report_pushes snes_keys_def dpad_keys_spec)
  have e: "gp_process_report k g =
     foldl (gp_key_queue_push k) g
       (spec_dpad_events k (gp_prev_report g) (gp_report g) @
        gp_button_keys k (gp_prev_report g ! 4) (gp_report g ! 4))"
    by (simp only: gp_process_report_pushes gp_keys_def dpad_keys_spec)
  show ?thesis
    by (intro conjI classify_Low [symmetric] classify_High [symmetric] a b c e)
qed

text \<open>
  C10. Two runs of a codec whose previous reports agree on bytes 0, 1 and 4 and whose
  current reports agree on bytes 0, 1 and 4 push the same keys in the same order: started
  from the same session, the two results differ in nothing but the report buffers they were
  given.
\<close>

theorem codec_reads_bytes_0_1_4_only:
  "p1 ! 0 = p2 ! 0 \<and> p1 ! 1 = p2 ! 1 \<and> p1 ! 4 = p2 ! 4 \<and>
   c1 ! 0 = c2 ! 0 \<and> c1 ! 1 = c2 ! 1 \<and> c1 ! 4 = c2 ! 4 \<longrightarrow>
   snes_keys k p1 c1 = snes_keys k p2 c2 \<and> gp_keys k p1 c1 = gp_keys k p2 c2 \<and>
   parse_snes_report k (d\<lparr>prev_report := p2, report := c2\<rparr>) =
     (parse_snes_report k (d\<lparr>prev_report := p1, report := c1\<rparr>))
       \<lparr>prev_report := p2, report := c2\<rparr> \<and>
   gp_process_report k (g\<lparr>gp_prev_report := p2, gp_report := c2\<rparr>) =
     (gp_process_report k (g\<lparr>gp_prev_report := p1, gp_report := c1\<rparr>))
       \<lparr>gp_prev_report := p2, gp_report := c2\<rparr>"
proof (intro impI)
  assume h: "p1 ! 0 = p2 ! 0 \<and> p1 ! 1 = p2 ! 1 \<and> p1 ! 4 = p2 ! 4 \<and>
   c1 ! 0 = c2 ! 0 \<and> c1 ! 1 = c2 ! 1 \<and> c1 ! 4 = c2 ! 4"
  have s: "snes_keys k p1 c1 = snes_keys k p2 c2"
    using h by (intro keys_bytes_014) simp_all
  have g: "gp_keys k p1 c1 = gp_keys k p2 c2"
    using h by (intro keys_bytes_014) simp_all
  have ps: "parse_snes_report k (d\<lparr>prev_report := p2, report := c2\<rparr>) =
     (parse_snes_report k (d\<lparr>prev_report := p1, report := c1\<rparr>))
       \<lparr>prev_report := p2, report := c2\<rparr>"
    unfolding parse_snes_report_of_reports s by simp
  have pg: "gp_process_report k (g\<lparr>gp_prev_report := p2, gp_report := c2\<rparr>) =
     (gp_process_report k (g\<lparr>gp_prev_report := p1, gp_report := c1\<rparr>))
       \<lparr>gp_prev_report := p2, gp_report := c2\<rparr>"
    unfolding gp_process_report_of_reports g by simp
  show "snes_keys k p1 c1 = snes_keys k p2 c2 \<and> gp_keys k p1 c1 = gp_keys k p2 c2 \<and>
   parse_snes_report k (d\<lparr>prev_report := p2, report := c2\<rparr>) =
     (parse_snes_report k (d\<lparr>prev_report := p1, report := c1\<rparr>))
       \<lparr>prev_report := p2, report := c2\<rparr> \<and>
   gp_process_report k (g\<lparr>gp_prev_report := p2, gp_report := c2\<rparr>) =
     (gp_process_report k (g\<lparr>gp_prev_report := p1, gp_report := c1\<rparr>))
       \<lparr>gp_prev_report := p2, gp_report := c2\<rparr>"
    by (intro conjI s g ps pg)
qed

theorem codec_reads_bytes_0_1_4_only_witness:
  "baseline_report ! 0 = baseline_noise ! 0 \<and> baseline_report ! 1 = baseline_noise ! 1 \<and>
   baseline_report ! 4 = baseline_noise ! 4 \<and>
   report_AB ! 0 = report_AB_noise ! 0 \<and> report_AB ! 1 = report_AB_noise ! 1 \<and>
   report_AB ! 4 = report_AB_noise ! 4 \<and>
   baseline_report \<noteq> baseline_noise \<and> report_AB \<noteq> report_AB_noise \<and>
   snes_keys grub2_term_h baseline_report report_AB
     = snes_keys grub2_term_h baseline_noise report_AB_noise \<and>
   gp_keys grub2_term_h baseline_report report_AB
     = gp_keys grub2_term_h baseline_noise report_AB_noise \<and>
   parse_snes_report grub2_term_h
       (snes_fresh\<lparr>prev_report := baseline_noise, report := report_AB_noise\<rparr>) =
     (parse_snes_report grub2_term_h
       (snes_fresh\<lparr>prev_report := baseline_report, report := report_AB\<rparr>))
       \<lparr>prev_report := baseline_noise, report := report_AB_noise\<rparr> \<and>
   gp_process_report grub2_term_h
       (gp_fresh\<lparr>gp_prev_report := baseline_noise, gp_report := report_AB_noise\<rparr>) =
     (gp_process_report grub2_term_h
       (gp_fresh\<lparr>gp_prev_report := baseline_report, gp_report := report_AB\<rparr>))
       \<lparr>gp_prev_report := baseline_noise, gp_report := report_AB_noise\<rparr>"
proof -
  have h: "baseline_report ! 0 = baseline_noise ! 0 \<and> baseline_report ! 1 = baseline_noise ! 1 \<and>
   baseline_report ! 4 = baseline_noise ! 4 \<and>
   report_AB ! 0 = report_AB_noise ! 0 \<and> report_AB ! 1 = report_AB_noise ! 1 \<and>
   report_AB ! 4 = report_AB_noise ! 4"
    by (simp add: baseline_report_def baseline_noise_def report_AB_def report_AB_noise_def)
  have n: "baseline_report \<noteq> baseline_noise" "report_AB \<noteq> report_AB_noise"
    by (simp_all add: baseline_report_def baseline_noise_def report_AB_def report_AB_noise_def)
  note c = mp [OF codec_reads_bytes_0_1_4_only
    [of baseline_report baseline_noise report_AB report_AB_noise grub2_term_h snes_fresh gp_fresh]
    h]
  show ?thesis
    apply (intro conjI)
    using h n c apply blast+
    done
qed

section \<open>The poll step\<close>

lemma queue_fields_updates:
  "queue_keys (d\<lparr>report := r\<rparr>) = queue_keys d"
  "queue_keys (d\<lparr>prev_report := r\<rparr>) = queue_keys d"
  "queue_keys (d\<lparr>transfer := t\<rparr>) = queue_keys d"
  "queue_keys (d\<lparr>dead := b\<rparr>) = queue_keys d"
  "queue_ok (d\<lparr>report := r\<rparr>) = queue_ok d"
  "queue_ok (d\<lparr>prev_report := r\<rparr>) = queue_ok d"
  "queue_ok (d\<lparr>transfer := t\<rparr>) = queue_ok d"
  "queue_ok (d\<lparr>dead := b\<rparr>) = queue_ok d"
  by (simp_all add: queue_keys_def queue_ok_def)

lemma gp_queue_fields_updates:
  "gp_queue_keys (g\<lparr>gp_report := r\<rparr>) = gp_queue_keys g"
  "gp_queue_keys (g\<lparr>gp_prev_report := r\<rparr>) = gp_queue_keys g"
  "gp_queue_keys (g\<lparr>gp_transfer := t\<rparr>) = gp_queue_keys g"
  "gp_queue_ok (g\<lparr>gp_report := r\<rparr>) = gp_queue_ok g"
  "gp_queue_ok (g\<lparr>gp_prev_report := r\<rparr>) = gp_queue_ok g"
  "gp_queue_ok (g\<lparr>gp_transfer := t\<rparr>) = gp_queue_ok g"
  by (simp_all add: gp_queue_keys_def gp_queue_ok_def)

lemma foldl_push_reports:
  "report (foldl (key_queue_push k) d ks) = report d"
  "prev_report (foldl (key_queue_push k) d ks) = prev_report d"
  by (induction ks arbitrary: d) (simp_all add: key_queue_push_def)

lemma gp_foldl_push_reports:
  "gp_report (foldl (gp_key_queue_push k) g ks) = gp_report g"
  "gp_prev_report (foldl (gp_key_queue_push k) g ks) = gp_prev_report g"
  by (induction ks arbitrary: g) (simp_all add: gp_key_queue_push_def Let_def)

lemma codec_keeps_reports:
  "report (parse_snes_report k d) = report d"
  "prev_report (parse_snes_report k d) = prev_report d"
  "gp_report (gp_process_report k g) = gp_report g"
  "gp_prev_report (gp_process_report k g) = gp_prev_report g"
  by (simp_all add: parse_snes_report_pushes gp_process_report_pushes foldl_push_reports
      gp_foldl_push_reports)

lemma getkey_dead: "dead d \<Longrightarrow> grub_usb_snes_getkey k io d = (GRUB_TERM_NO_KEY k, d, [])"
  by (simp add: grub_usb_snes_getkey_def)

lemma polls_dead: "dead d \<Longrightarrow> polls k ios d = (replicate (length ios) (GRUB_TERM_NO_KEY k, []), d)"
  by (induction ios) (simp_all add: getkey_dead)

lemma getkey_skip:
  assumes "\<not> dead d" "key_queue_count d = 0" "chk_err io \<noteq> GRUB_USB_ERR_WAIT"
    and "\<not> (chk_err io = GRUB_USB_ERR_NONE \<and> chk_actual io \<ge> 1)"
  shows "grub_usb_snes_getkey k io d =
           (GRUB_TERM_NO_KEY k,
            d\<lparr>report := chk_data io, transfer := new_transfer io, dead := (new_transfer io = None)\<rparr>,
            [Check_transfer (transfer d), Bulk_read_background])"
  using assms by (auto simp add: grub_usb_snes_getkey_def Let_def key_queue_pop_def)

lemma getkey_run:
  assumes "\<not> dead d" "key_queue_count d = 0" "chk_err io = GRUB_USB_ERR_NONE" "chk_actual io \<ge> 1"
  shows "grub_usb_snes_getkey k io d =
           (let d1 = (parse_snes_report k (d\<lparr>report := chk_data io\<rparr>))
                       \<lparr>prev_report := chk_data io, transfer := new_transfer io\<rparr>
            in if new_transfer io = None
               then (GRUB_TERM_NO_KEY k, d1\<lparr>dead := True\<rparr>,
                     [Check_transfer (transfer d), Bulk_read_background])
               else (fst (key_queue_pop k d1), snd (key_queue_pop k d1),
                     [Check_transfer (transfer d), Bulk_read_background]))"
  using assms by (simp add: grub_usb_snes_getkey_def Let_def codec_keeps_reports)

lemma getkey_rearm_fails:
  assumes "Bulk_read_background \<in> set (snd (snd (grub_usb_snes_getkey k io d)))"
    and "new_transfer io = None"
  shows "fst (grub_usb_snes_getkey k io d) = GRUB_TERM_NO_KEY k"
    and "dead (fst (snd (grub_usb_snes_getkey k io d)))"
  using assms by (simp_all add: grub_usb_snes_getkey_def Let_def split: if_splits)

lemma gp_getkey_skip:
  assumes "chk_err io \<noteq> GRUB_USB_ERR_WAIT"
    and "\<not> (chk_err io = GRUB_USB_ERR_NONE \<and> chk_actual io = 8)"
  shows "gp_grub_usb_snes_getkey k io g =
           (let g1 = g\<lparr>gp_report := chk_data io, gp_prev_report := chk_data io,
                        gp_transfer := new_transfer io\<rparr>
            in (fst (gp_key_queue_pop k g1), snd (gp_key_queue_pop k g1),
                [Check_transfer (gp_transfer g), Bulk_read_background]))"
  using assms by (auto simp add: gp_grub_usb_snes_getkey_def Let_def USB_REPORT_SIZE_def)

lemma gp_getkey_run:
  assumes "chk_err io = GRUB_USB_ERR_NONE" "chk_actual io = 8"
  shows "gp_grub_usb_snes_getkey k io g =
           (let g1 = (gp_process_report k (g\<lparr>gp_report := chk_data io\<rparr>))
                       \<lparr>gp_prev_report := chk_data io, gp_transfer := new_transfer io\<rparr>
            in (fst (gp_key_queue_pop k g1), snd (gp_key_queue_pop k g1),
                [Check_transfer (gp_transfer g), Bulk_read_background]))"
  using assms
  by (simp add: gp_grub_usb_snes_getkey_def Let_def USB_REPORT_SIZE_def codec_keeps_reports)

lemma gp_pop_fields:
  "gp_prev_report (snd (gp_key_queue_pop k g)) = gp_prev_report g"
  "gp_transfer (snd (gp_key_queue_pop k g)) = gp_transfer g"
  "gp_report (snd (gp_key_queue_pop k g)) = gp_report g"
  by (simp_all add: gp_key_queue_pop_def)

lemma pop_fields:
  "prev_report (snd (key_queue_pop k d)) = prev_report d"
  "transfer (snd (key_queue_pop k d)) = transfer d"
  "report (snd (key_queue_pop k d)) = report d"
  "dead (snd (key_queue_pop k d)) = dead d"
  by (simp_all add: key_queue_pop_def)

lemma gp_getkey_done:
  assumes "chk_err io \<noteq> GRUB_USB_ERR_WAIT"
  shows "gp_prev_report (fst (snd (gp_grub_usb_snes_getkey k io g))) = chk_data io"
    and "gp_transfer (fst (snd (gp_grub_usb_snes_getkey k io g))) = new_transfer io"
    and "snd (snd (gp_grub_usb_snes_getkey k io g)) =
           [Check_transfer (gp_transfer g), Bulk_read_background]"
  using assms
  by (simp_all add: gp_grub_usb_snes_getkey_def Let_def gp_pop_fields codec_keeps_reports)

lemma push_all_ok: "queue_ok d \<Longrightarrow> queue_ok (foldl (key_queue_push k) d ks)"
  by (induction ks arbitrary: d) (simp_all add: push_ok)

lemma getkey_run_keys:
  assumes "\<not> dead d" "queue_ok d" "key_queue_count d = 0"
    and "chk_err io = GRUB_USB_ERR_NONE" "chk_actual io \<ge> 1" "new_transfer io \<noteq> None"
  shows "fst (grub_usb_snes_getkey k io d) =
           (case take 32 (filter (\<lambda>x. x \<noteq> GRUB_TERM_NO_KEY k)
                   (snes_keys k (prev_report d) (chk_data io))) of
              [] \<Rightarrow> GRUB_TERM_NO_KEY k | key # rest \<Rightarrow> key)"
    and "queue_keys (fst (snd (grub_usb_snes_getkey k io d))) =
           tl (take 32 (filter (\<lambda>x. x \<noteq> GRUB_TERM_NO_KEY k)
                 (snes_keys k (prev_report d) (chk_data io))))"
    and "prev_report (fst (snd (grub_usb_snes_getkey k io d))) = chk_data io"
proof -
  let ?ks = "take 32 (filter (\<lambda>x. x \<noteq> GRUB_TERM_NO_KEY k)
                 (snes_keys k (prev_report d) (chk_data io)))"
  let ?d0 = "d\<lparr>report := chk_data io\<rparr>"
  let ?d1 = "(parse_snes_report k ?d0)\<lparr>prev_report := chk_data io, transfer := new_transfer io\<rparr>"
  have ok0: "queue_ok ?d0" and k0: "queue_keys ?d0 = []"
    using assms(2,3) length_queue_keys [of d] by (simp_all add: queue_fields_updates)
  have ok1: "queue_ok ?d1"
    using push_all_ok [OF ok0] by (simp add: queue_fields_updates parse_snes_report_pushes)
  have k1: "queue_keys ?d1 = ?ks"
    using push_take32 [OF ok0, of k "snes_keys k (prev_report d) (chk_data io)"] k0
    by (simp add: queue_fields_updates parse_snes_report_pushes)
  have g: "grub_usb_snes_getkey k io d =
      (fst (key_queue_pop k ?d1), snd (key_queue_pop k ?d1),
       [Check_transfer (transfer d), Bulk_read_background])"
    using getkey_run [OF assms(1,3,4,5), of k] assms(6) by (simp add: Let_def)
  show "prev_report (fst (snd (grub_usb_snes_getkey k io d))) = chk_data io"
    by (simp add: g pop_fields)
  show "fst (grub_usb_snes_getkey k io d) =
           (case ?ks of [] \<Rightarrow> GRUB_TERM_NO_KEY k | key # rest \<Rightarrow> key)"
  proof (cases ?ks)
    case Nil
    then have "key_queue_count ?d1 = 0" using k1 length_queue_keys [of ?d1] by simp
    then show ?thesis using Nil by (simp add: g pop_empty)
  next
    case (Cons key rest)
    then have "key_queue_count ?d1 > 0" using k1 length_queue_keys [of ?d1] by simp
    then show ?thesis using Cons k1 pop_head(1) [OF ok1, of k] by (simp add: g)
  qed
  show "queue_keys (fst (snd (grub_usb_snes_getkey k io d))) = tl ?ks"
  proof (cases ?ks)
    case Nil
    then have "key_queue_count ?d1 = 0" using k1 length_queue_keys [of ?d1] by simp
    then show ?thesis using Nil k1 by (simp add: g pop_empty)
  next
    case (Cons key rest)
    then have "key_queue_count ?d1 > 0" using k1 length_queue_keys [of ?d1] by simp
    then show ?thesis using Cons k1 pop_head(2) [OF ok1, of k] by (simp add: g)
  qed
qed

lemma gp_getkey_run_keys:
  assumes "gp_queue_ok g" "chk_err io = GRUB_USB_ERR_NONE" "chk_actual io = 8"
  shows "fst (gp_grub_usb_snes_getkey k io g) =
           (case last32 (gp_queue_keys g @ filter (\<lambda>x. x \<noteq> GRUB_TERM_NO_KEY k)
                   (gp_keys k (gp_prev_report g) (chk_data io))) of
              [] \<Rightarrow> GRUB_TERM_NO_KEY k | key # rest \<Rightarrow> key)"
    and "gp_queue_keys (fst (snd (gp_grub_usb_snes_getkey k io g))) =
           tl (last32 (gp_queue_keys g @ filter (\<lambda>x. x \<noteq> GRUB_TERM_NO_KEY k)
                 (gp_keys k (gp_prev_report g) (chk_data io))))"
proof -
  let ?ks = "last32 (gp_queue_keys g @ filter (\<lambda>x. x \<noteq> GRUB_TERM_NO_KEY k)
                 (gp_keys k (gp_prev_report g) (chk_data io)))"
  let ?g0 = "g\<lparr>gp_report := chk_data io\<rparr>"
  let ?g1 = "(gp_process_report k ?g0)\<lparr>gp_prev_report := chk_data io,
               gp_transfer := new_transfer io\<rparr>"
  have ok0: "gp_queue_ok ?g0" using assms(1) by (simp add: gp_queue_fields_updates)
  have ok1: "gp_queue_ok ?g1"
    using gp_push_all_ok [OF ok0] by (simp add: gp_queue_fields_updates gp_process_report_pushes)
  have k1: "gp_queue_keys ?g1 = ?ks"
    using gp_push_all_keys [OF ok0, of k "gp_keys k (gp_prev_report g) (chk_data io)"]
    by (simp add: gp_queue_fields_updates gp_process_report_pushes)
  have e: "gp_grub_usb_snes_getkey k io g =
      (fst (gp_key_queue_pop k ?g1), snd (gp_key_queue_pop k ?g1),
       [Check_transfer (gp_transfer g), Bulk_read_background])"
    using gp_getkey_run [OF assms(2,3), of k g] by (simp add: Let_def)
  show "fst (gp_grub_usb_snes_getkey k io g) =
           (case ?ks of [] \<Rightarrow> GRUB_TERM_NO_KEY k | key # rest \<Rightarrow> key)"
  proof (cases ?ks)
    case Nil
    then have "key_queue_size ?g1 = 0" using k1 length_gp_queue_keys [of ?g1] by simp
    then show ?thesis using Nil by (simp add: e gp_pop_empty)
  next
    case (Cons key rest)
    then have "key_queue_size ?g1 > 0" using k1 length_gp_queue_keys [of ?g1] by simp
    then show ?thesis using Cons k1 gp_pop_head(1) [OF ok1, of k] by (simp add: e)
  qed
  show "gp_queue_keys (fst (snd (gp_grub_usb_snes_getkey k io g))) = tl ?ks"
  proof (cases ?ks)
    case Nil
    then have "key_queue_size ?g1 = 0" using k1 length_gp_queue_keys [of ?g1] by simp
    then show ?thesis using Nil k1 by (simp add: e gp_pop_empty)
  next
    case (Cons key rest)
    then have "key_queue_size ?g1 > 0" using k1 length_gp_queue_keys [of ?g1] by simp
    then show ?thesis using Cons k1 gp_pop_head(2) [OF ok1, of k] by (simp add: e)
  qed
qed

lemma sample_left:
  "snes_keys grub2_term_h baseline_report report_left = [GRUB_TERM_KEY_LEFT grub2_term_h]"
  "gp_keys grub2_term_h baseline_report report_left = [GRUB_TERM_KEY_LEFT grub2_term_h]"
  "GRUB_TERM_KEY_LEFT grub2_term_h \<noteq> GRUB_TERM_NO_KEY grub2_term_h"
  by (simp_all add: snes_keys_def gp_keys_def dpad_keys_def snes_button_keys_def
      gp_button_keys_def baseline_report_def report_left_def emit_def
      BTN_PRESSED_def AXIS_CENTER_def AXIS_THRESHOLD_def grub2_term_h_def key_left_def)

lemma replicate8: "replicate 8 x = [x, x, x, x, x, x, x, x]"
  by (simp add: numeral_eq_Suc)

lemma armed_facts:
  "\<not> dead snes_armed" "queue_ok snes_armed" "key_queue_count snes_armed = 0"
  "prev_report snes_armed = baseline_report" "transfer snes_armed = Some 0"
  "gp_queue_ok gp_armed" "gp_queue_keys gp_armed = []" "gp_prev_report gp_armed = baseline_report"
  "gp_transfer gp_armed = Some 0" "gp_report gp_armed = zero_report"
  by (simp_all add: replicate8 snes_armed_def snes_fresh_def snes_data_init_def queue_ok_def
      gp_armed_def gp_fresh_def gp_data_init_def gp_queue_ok_def gp_queue_keys_def
      KEY_QUEUE_CAPACITY_def baseline_report_def zero_report_def USB_REPORT_SIZE_def)

lemma io_facts:
  "chk_err io_wait = GRUB_USB_ERR_WAIT"
  "chk_err io_short = GRUB_USB_ERR_NONE" "chk_actual io_short = 4"
  "chk_data io_short = report_left" "new_transfer io_short = Some 1"
  "chk_err io_error = GRUB_USB_ERR_OTHER 3" "chk_data io_error = zero_report"
  "new_transfer io_error = Some 1"
  "chk_err io_left = GRUB_USB_ERR_NONE" "chk_actual io_left = 8"
  "chk_data io_left = report_left" "new_transfer io_left = Some 1"
  "chk_err io_left_then_fail = GRUB_USB_ERR_NONE" "chk_actual io_left_then_fail = 8"
  "chk_data io_left_then_fail = report_left" "new_transfer io_left_then_fail = None"
  by (simp_all add: io_wait_def io_short_def io_error_def io_left_def io_left_then_fail_def)

lemma sample_short_read:
  "fst (grub_usb_snes_getkey grub2_term_h io_short snes_armed) = GRUB_TERM_KEY_LEFT grub2_term_h"
  "prev_report (fst (snd (grub_usb_snes_getkey grub2_term_h io_short snes_armed))) = report_left"
proof -
  have a: "chk_actual io_short \<ge> 1" "new_transfer io_short \<noteq> None" by (simp_all add: io_facts)
  note r = getkey_run_keys [OF armed_facts(1,2,3) io_facts(2) a, of grub2_term_h]
  show "fst (grub_usb_snes_getkey grub2_term_h io_short snes_armed) = GRUB_TERM_KEY_LEFT grub2_term_h"
    using r(1) sample_left(3) by (simp add: armed_facts io_facts sample_left(1))
  show "prev_report (fst (snd (grub_usb_snes_getkey grub2_term_h io_short snes_armed))) = report_left"
    using r(3) by (simp add: io_facts)
qed

lemma sample_gp_fail:
  "fst (gp_grub_usb_snes_getkey grub2_term_h io_left_then_fail gp_armed)
     = GRUB_TERM_KEY_LEFT grub2_term_h"
  using gp_getkey_run_keys(1) [OF armed_facts(6) io_facts(13,14), of grub2_term_h] sample_left(3)
  by (simp add: armed_facts io_facts sample_left(2) last32_def)

text \<open>
  C2 (as amended). A poll that finds its read finished (any result but
  \<^verbatim>\<open>GRUB_USB_ERR_WAIT\<close>) always tries to start the next read, in both files, and a read
  that finished with an error never reaches the codec. In usb\_snes.c the codec runs and the
  current report becomes the previous one exactly when the read succeeded with at least one
  byte, so also after a short read of 1 to 7 bytes; otherwise the previous report and the
  queue stay as they were. In usb\_snes\_gamepad.c the codec runs exactly when the read
  succeeded with 8 bytes, but the current report is copied over the previous one after every
  finished read, also after an error or a short read. Where the codec runs and the next read
  is started, the poll returns the first key the codec derived (the oldest queued key in
  usb\_snes\_gamepad.c) and leaves the others in the queue.
\<close>

theorem poll_finished_read_by_variant:
  "(\<not> dead d \<and> key_queue_count d = 0 \<and> chk_err io1 \<noteq> GRUB_USB_ERR_WAIT \<and>
    \<not> (chk_err io1 = GRUB_USB_ERR_NONE \<and> chk_actual io1 \<ge> 1) \<longrightarrow>
      grub_usb_snes_getkey k io1 d =
        (GRUB_TERM_NO_KEY k,
         d\<lparr>report := chk_data io1, transfer := new_transfer io1,
           dead := (new_transfer io1 = None)\<rparr>,
         [Check_transfer (transfer d), Bulk_read_background])) \<and>
   (\<not> dead d \<and> key_queue_count d = 0 \<and> chk_err io2 = GRUB_USB_ERR_NONE \<and> chk_actual io2 \<ge> 1 \<longrightarrow>
      grub_usb_snes_getkey k io2 d =
        (let d1 = (parse_snes_report k (d\<lparr>report := chk_data io2\<rparr>))
                    \<lparr>prev_report := chk_data io2, transfer := new_transfer io2\<rparr>
         in if new_transfer io2 = None
            then (GRUB_TERM_NO_KEY k, d1\<lparr>dead := True\<rparr>,
                  [Check_transfer (transfer d), Bulk_read_background])
            else (fst (key_queue_pop k d1), snd (key_queue_pop k d1),
                  [Check_transfer (transfer d), Bulk_read_background]))) \<and>
   (chk_err io1 \<noteq> GRUB_USB_ERR_WAIT \<and>
    \<not> (chk_err io1 = GRUB_USB_ERR_NONE \<and> chk_actual io1 = 8) \<longrightarrow>
      gp_grub_usb_snes_getkey k io1 g =
        (let g1 = g\<lparr>gp_report := chk_data io1, gp_prev_report := chk_data io1,
                     gp_transfer := new_transfer io1\<rparr>
         in (fst (gp_key_queue_pop k g1), snd (gp_key_queue_pop k g1),
             [Check_transfer (gp_transfer g), Bulk_read_background]))) \<and>
   (chk_err io3 = GRUB_USB_ERR_NONE \<and> chk_actual io3 = 8 \<longrightarrow>
      gp_grub_usb_snes_getkey k io3 g =
        (let g1 = (gp_process_report k (g\<lparr>gp_report := chk_data io3\<rparr>))
                    \<lparr>gp_prev_report := chk_data io3, gp_transfer := new_transfer io3\<rparr>
         in (fst (gp_key_queue_pop k g1), snd (gp_key_queue_pop k g1),
             [Check_transfer (gp_transfer g), Bulk_read_background]))) \<and>
   (\<not> dead d \<and> queue_ok d \<and> key_queue_count d = 0 \<and> chk_err io2 = GRUB_USB_ERR_NONE \<and>
    chk_actual io2 \<ge> 1 \<and> new_transfer io2 \<noteq> None \<longrightarrow>
      fst (grub_usb_snes_getkey k io2 d) =
        (case take 32 (filter (\<lambda>x. x \<noteq> GRUB_TERM_NO_KEY k)
                (snes_keys k (prev_report d) (chk_data io2))) of
           [] \<Rightarrow> GRUB_TERM_NO_KEY k | key # rest \<Rightarrow> key) \<and>
      queue_keys (fst (snd (grub_usb_snes_getkey k io2 d))) =
        tl (take 32 (filter (\<lambda>x. x \<noteq> GRUB_TERM_NO_KEY k)
              (snes_keys k (prev_report d) (chk_data io2))))) \<and>
   (gp_queue_ok g \<and> chk_err io3 = GRUB_USB_ERR_NONE \<and> chk_actual io3 = 8 \<longrightarrow>
      fst (gp_grub_usb_snes_getkey k io3 g) =
        (case last32 (gp_queue_keys g @ filter (\<lambda>x. x \<noteq> GRUB_TERM_NO_KEY k)
                (gp_keys k (gp_prev_report g) (chk_data io3))) of
           [] \<Rightarrow> GRUB_TERM_NO_KEY k | key # rest \<Rightarrow> key) \<and>
      gp_queue_keys (fst (snd (gp_grub_usb_snes_getkey k io3 g))) =
        tl (last32 (gp_queue_keys g @ filter (\<lambda>x. x \<noteq> GRUB_TERM_NO_KEY k)
              (gp_keys k (gp_prev_report g) (chk_data io3)))))"
proof (intro conjI impI)
  assume "\<not> dead d \<and> key_queue_count d = 0 \<and> chk_err io1 \<noteq> GRUB_USB_ERR_WAIT \<and>
    \<not> (chk_err io1 = GRUB_USB_ERR_NONE \<and> chk_actual io1 \<ge> 1)"
  then show "grub_usb_snes_getkey k io1 d =
        (GRUB_TERM_NO_KEY k,
         d\<lparr>report := chk_data io1, transfer := new_transfer io1,
           dead := (new_transfer io1 = None)\<rparr>,
         [Check_transfer (transfer d), Bulk_read_background])"
    by (intro getkey_skip) simp_all
next
  assume "\<not> dead d \<and> key_queue_count d = 0 \<and> chk_err io2 = GRUB_USB_ERR_NONE \<and> chk_actual io2 \<ge> 1"
  then show "grub_usb_snes_getkey k io2 d =
        (let d1 = (parse_snes_report k (d\<lparr>report := chk_data io2\<rparr>))
                    \<lparr>prev_report := chk_data io2, transfer := new_transfer io2\<rparr>
         in if new_transfer io2 = None
            then (GRUB_TERM_NO_KEY k, d1\<lparr>dead := True\<rparr>,
                  [Check_transfer (transfer d), Bulk_read_background])
            else (fst (key_queue_pop k d1), snd (key_queue_pop k d1),
                  [Check_transfer (transfer d), Bulk_read_background]))"
    by (intro getkey_run) simp_all
next
  assume "chk_err io1 \<noteq> GRUB_USB_ERR_WAIT \<and>
    \<not> (chk_err io1 = GRUB_USB_ERR_NONE \<and> chk_actual io1 = 8)"
  then show "gp_grub_usb_snes_getkey k io1 g =
        (let g1 = g\<lparr>gp_report := chk_data io1, gp_prev_report := chk_data io1,
                     gp_transfer := new_transfer io1\<rparr>
         in (fst (gp_key_queue_pop k g1), snd (gp_key_queue_pop k g1),
             [Check_transfer (gp_transfer g), Bulk_read_background]))"
    by (intro gp_getkey_skip) simp_all
next
  assume "chk_err io3 = GRUB_USB_ERR_NONE \<and> chk_actual io3 = 8"
  then show "gp_grub_usb_snes_getkey k io3 g =
        (let g1 = (gp_process_report k (g\<lparr>gp_report := chk_data io3\<rparr>))
                    \<lparr>gp_prev_report := chk_data io3, gp_transfer := new_transfer io3\<rparr>
         in (fst (gp_key_queue_pop k g1), snd (gp_key_queue_pop k g1),
             [Check_transfer (gp_transfer g), Bulk_read_background]))"
    by (intro gp_getkey_run) simp_all
next
  assume a: "\<not> dead d \<and> queue_ok d \<and> key_queue_count d = 0 \<and> chk_err io2 = GRUB_USB_ERR_NONE \<and>
    chk_actual io2 \<ge> 1 \<and> new_transfer io2 \<noteq> None"
  show "fst (grub_usb_snes_getkey k io2 d) =
        (case take 32 (filter (\<lambda>x. x \<noteq> GRUB_TERM_NO_KEY k)
                (snes_keys k (prev_report d) (chk_data io2))) of
           [] \<Rightarrow> GRUB_TERM_NO_KEY k | key # rest \<Rightarrow> key)"
    using a by (intro getkey_run_keys(1)) simp_all
  show "queue_keys (fst (snd (grub_usb_snes_getkey k io2 d))) =
        tl (take 32 (filter (\<lambda>x. x \<noteq> GRUB_TERM_NO_KEY k)
              (snes_keys k (prev_report d) (chk_data io2))))"
    using a by (intro getkey_run_keys(2)) simp_all
next
  assume a: "gp_queue_ok g \<and> chk_err io3 = GRUB_USB_ERR_NONE \<and> chk_actual io3 = 8"
  show "fst (gp_grub_usb_snes_getkey k io3 g) =
        (case last32 (gp_queue_keys g @ filter (\<lambda>x. x \<noteq> GRUB_TERM_NO_KEY k)
                (gp_keys k (gp_prev_report g) (chk_data io3))) of
           [] \<Rightarrow> GRUB_TERM_NO_KEY k | key # rest \<Rightarrow> key)"
    using a by (intro gp_getkey_run_keys(1)) simp_all
  show "gp_queue_keys (fst (snd (gp_grub_usb_snes_getkey k io3 g))) =
        tl (last32 (gp_queue_keys g @ filter (\<lambda>x. x \<noteq> GRUB_TERM_NO_KEY k)
              (gp_keys k (gp_prev_report g) (chk_data io3))))"
    using a by (intro gp_getkey_run_keys(2)) simp_all
qed

theorem poll_finished_read_by_variant_witness:
  "\<not> dead snes_armed \<and> key_queue_count snes_armed = 0 \<and>
   chk_err io_error \<noteq> GRUB_USB_ERR_WAIT \<and> chk_err io_error \<noteq> GRUB_USB_ERR_NONE \<and>
   chk_err io_short = GRUB_USB_ERR_NONE \<and> chk_actual io_short \<ge> 1 \<and>
   chk_err io_left = GRUB_USB_ERR_NONE \<and> chk_actual io_left = 8 \<and>
   grub_usb_snes_getkey grub2_term_h io_error snes_armed =
     (GRUB_TERM_NO_KEY grub2_term_h,
      snes_armed\<lparr>report := zero_report, transfer := Some 1, dead := False\<rparr>,
      [Check_transfer (Some 0), Bulk_read_background]) \<and>
   prev_report (fst (snd (grub_usb_snes_getkey grub2_term_h io_short snes_armed))) = report_left \<and>
   gp_prev_report (fst (snd (gp_grub_usb_snes_getkey grub2_term_h io_error gp_armed)))
     = zero_report \<and>
   snd (snd (gp_grub_usb_snes_getkey grub2_term_h io_error gp_armed))
     = [Check_transfer (Some 0), Bulk_read_background] \<and>
   gp_prev_report (fst (snd (gp_grub_usb_snes_getkey grub2_term_h io_left gp_armed)))
     = report_left \<and>
   queue_ok snes_armed \<and> new_transfer io_short \<noteq> None \<and> gp_queue_ok gp_armed \<and>
   fst (grub_usb_snes_getkey grub2_term_h io_short snes_armed) = GRUB_TERM_KEY_LEFT grub2_term_h \<and>
   fst (gp_grub_usb_snes_getkey grub2_term_h io_left gp_armed) = GRUB_TERM_KEY_LEFT grub2_term_h"
proof -
  note T = poll_finished_read_by_variant
    [of snes_armed io_error grub2_term_h io_short gp_armed io_left]
  have h1: "\<not> dead snes_armed \<and> key_queue_count snes_armed = 0 \<and>
      chk_err io_error \<noteq> GRUB_USB_ERR_WAIT \<and>
      \<not> (chk_err io_error = GRUB_USB_ERR_NONE \<and> chk_actual io_error \<ge> 1)"
    by (simp add: armed_facts io_facts)
  have h2: "\<not> dead snes_armed \<and> key_queue_count snes_armed = 0 \<and>
      chk_err io_short = GRUB_USB_ERR_NONE \<and> chk_actual io_short \<ge> 1"
    by (simp add: armed_facts io_facts)
  have h3: "chk_err io_error \<noteq> GRUB_USB_ERR_WAIT \<and>
      \<not> (chk_err io_error = GRUB_USB_ERR_NONE \<and> chk_actual io_error = 8)"
    by (simp add: io_facts)
  have h4: "chk_err io_left = GRUB_USB_ERR_NONE \<and> chk_actual io_left = 8"
    by (simp add: io_facts)
  have r1: "grub_usb_snes_getkey grub2_term_h io_error snes_armed =
     (GRUB_TERM_NO_KEY grub2_term_h,
      snes_armed\<lparr>report := zero_report, transfer := Some 1, dead := False\<rparr>,
      [Check_transfer (Some 0), Bulk_read_background])"
    using mp [OF conjunct1 [OF T] h1] by (simp add: io_facts armed_facts)
  have r2: "prev_report (fst (snd (grub_usb_snes_getkey grub2_term_h io_short snes_armed)))
      = report_left"
    using mp [OF conjunct1 [OF conjunct2 [OF T]] h2]
    by (simp add: io_facts Let_def pop_fields)
  have r3: "gp_prev_report (fst (snd (gp_grub_usb_snes_getkey grub2_term_h io_error gp_armed)))
     = zero_report"
    "snd (snd (gp_grub_usb_snes_getkey grub2_term_h io_error gp_armed))
     = [Check_transfer (Some 0), Bulk_read_background]"
    using mp [OF conjunct1 [OF conjunct2 [OF conjunct2 [OF T]]] h3]
    by (simp_all add: io_facts armed_facts Let_def gp_pop_fields)
  have r4: "gp_prev_report (fst (snd (gp_grub_usb_snes_getkey grub2_term_h io_left gp_armed)))
     = report_left"
    using mp [OF conjunct1 [OF conjunct2 [OF conjunct2 [OF conjunct2 [OF T]]]] h4]
    by (simp add: io_facts Let_def gp_pop_fields)
  have n5: "new_transfer io_short \<noteq> None" by (simp add: io_facts)
  have h5: "\<not> dead snes_armed \<and> queue_ok snes_armed \<and> key_queue_count snes_armed = 0 \<and>
      chk_err io_short = GRUB_USB_ERR_NONE \<and> chk_actual io_short \<ge> 1 \<and>
      new_transfer io_short \<noteq> None"
    using n5 by (simp add: armed_facts io_facts)
  have r5: "fst (grub_usb_snes_getkey grub2_term_h io_short snes_armed)
      = GRUB_TERM_KEY_LEFT grub2_term_h"
    using conjunct1 [OF mp [OF conjunct1 [OF conjunct2 [OF conjunct2 [OF conjunct2
        [OF conjunct2 [OF T]]]]] h5]] sample_left(3)
    by (simp add: armed_facts io_facts sample_left(1))
  have h6: "gp_queue_ok gp_armed \<and> chk_err io_left = GRUB_USB_ERR_NONE \<and> chk_actual io_left = 8"
    by (simp add: armed_facts io_facts)
  have r6: "fst (gp_grub_usb_snes_getkey grub2_term_h io_left gp_armed)
      = GRUB_TERM_KEY_LEFT grub2_term_h"
    using conjunct1 [OF mp [OF conjunct2 [OF conjunct2 [OF conjunct2 [OF conjunct2
        [OF conjunct2 [OF T]]]]] h6]] sample_left(3)
    by (simp add: armed_facts io_facts sample_left(2) last32_def)
  have e: "chk_err io_error \<noteq> GRUB_USB_ERR_NONE" by (simp add: io_facts)
  show ?thesis
    by (intro conjI r1 r2 r3 r4 r5 r6 n5 armed_facts(2) armed_facts(6) e conjunct1 [OF h1] conjunct1 [OF conjunct2 [OF h1]]
        conjunct1 [OF conjunct2 [OF conjunct2 [OF h1]]] conjunct1 [OF h4] conjunct2 [OF h4]
        conjunct1 [OF conjunct2 [OF conjunct2 [OF h2]]] conjunct2 [OF conjunct2 [OF conjunct2 [OF h2]]])
qed

text \<open>
  C2 as stated fails on both files. In usb\_snes.c a read that succeeds with 4 of the 8
  bytes still runs the codec (the poll returns Left) and replaces the previous report. In
  usb\_snes\_gamepad.c a read that fails, having written nothing into the zeroed buffer of a
  fresh session, replaces the centred previous report by zeros.
\<close>

theorem poll_finished_read_counterexample:
  "chk_err io_short = GRUB_USB_ERR_NONE \<and> chk_actual io_short < 8 \<and>
   fst (grub_usb_snes_getkey grub2_term_h io_short snes_armed) = GRUB_TERM_KEY_LEFT grub2_term_h \<and>
   prev_report (fst (snd (grub_usb_snes_getkey grub2_term_h io_short snes_armed))) = report_left \<and>
   prev_report snes_armed = baseline_report \<and> report_left \<noteq> baseline_report \<and>
   chk_err io_error = GRUB_USB_ERR_OTHER 3 \<and>
   gp_prev_report (fst (snd (gp_grub_usb_snes_getkey grub2_term_h io_error gp_armed)))
     = zero_report \<and>
   gp_prev_report gp_armed = baseline_report \<and> zero_report \<noteq> baseline_report"
proof -
  have a: "chk_actual io_short < 8" by (simp add: io_facts)
  have b: "report_left \<noteq> baseline_report" "zero_report \<noteq> baseline_report"
    by (simp_all add: report_left_def baseline_report_def zero_report_def)
  have w: "chk_err io_error \<noteq> GRUB_USB_ERR_WAIT" by (simp add: io_facts)
  have c: "gp_prev_report (fst (snd (gp_grub_usb_snes_getkey grub2_term_h io_error gp_armed)))
     = zero_report"
    using gp_getkey_done(1) [OF w, of grub2_term_h gp_armed] by (simp add: io_facts)
  show ?thesis
    by (intro conjI a b c sample_short_read io_facts(2) io_facts(6) armed_facts(4) armed_facts(8))
qed

text \<open>
  C3 (as amended). In usb\_snes.c a poll whose attempt to start the next read fails marks the
  session dead and returns \<^verbatim>\<open>GRUB_TERM_NO_KEY\<close>, and a dead session stays dead: every later
  poll returns \<^verbatim>\<open>GRUB_TERM_NO_KEY\<close>, calls nothing in the USB layer and leaves the session
  as it is. usb\_snes\_gamepad.c has no dead state: a poll whose attempt to start the next
  read fails stores the null handle and returns what the queue pops, a key if one is queued.
\<close>

theorem dead_session_by_variant:
  "(Bulk_read_background \<in> set (snd (snd (grub_usb_snes_getkey k io d))) \<and>
    new_transfer io = None \<longrightarrow>
      fst (grub_usb_snes_getkey k io d) = GRUB_TERM_NO_KEY k \<and>
      dead (fst (snd (grub_usb_snes_getkey k io d)))) \<and>
   (dead e \<longrightarrow> polls k ios e = (replicate (length ios) (GRUB_TERM_NO_KEY k, []), e)) \<and>
   (chk_err io \<noteq> GRUB_USB_ERR_WAIT \<and> new_transfer io = None \<longrightarrow>
      gp_transfer (fst (snd (gp_grub_usb_snes_getkey k io g))) = None \<and>
      fst (gp_grub_usb_snes_getkey k io g) =
        fst (gp_key_queue_pop k
          (if chk_err io = GRUB_USB_ERR_NONE \<and> chk_actual io = 8
           then gp_process_report k (g\<lparr>gp_report := chk_data io\<rparr>)
           else g\<lparr>gp_report := chk_data io\<rparr>)))"
proof (intro conjI impI)
  assume a: "Bulk_read_background \<in> set (snd (snd (grub_usb_snes_getkey k io d))) \<and>
    new_transfer io = None"
  show "fst (grub_usb_snes_getkey k io d) = GRUB_TERM_NO_KEY k"
    using a by (intro getkey_rearm_fails(1)) simp_all
  show "dead (fst (snd (grub_usb_snes_getkey k io d)))"
    using a by (intro getkey_rearm_fails(2)) simp_all
next
  assume "dead e"
  then show "polls k ios e = (replicate (length ios) (GRUB_TERM_NO_KEY k, []), e)"
    by (rule polls_dead)
next
  assume a: "chk_err io \<noteq> GRUB_USB_ERR_WAIT \<and> new_transfer io = None"
  then show "gp_transfer (fst (snd (gp_grub_usb_snes_getkey k io g))) = None"
    using gp_getkey_done(2) [of io k g] by simp
  have p: "fst (gp_key_queue_pop k (x\<lparr>gp_prev_report := r, gp_transfer := t\<rparr>)) =
           fst (gp_key_queue_pop k x)" for x r t
    by (simp add: gp_key_queue_pop_def)
  show "fst (gp_grub_usb_snes_getkey k io g) =
        fst (gp_key_queue_pop k
          (if chk_err io = GRUB_USB_ERR_NONE \<and> chk_actual io = 8
           then gp_process_report k (g\<lparr>gp_report := chk_data io\<rparr>)
           else g\<lparr>gp_report := chk_data io\<rparr>))"
    using a
    by (simp add: gp_grub_usb_snes_getkey_def Let_def USB_REPORT_SIZE_def p)
qed

theorem dead_session_by_variant_witness:
  "Bulk_read_background \<in>
     set (snd (snd (grub_usb_snes_getkey grub2_term_h io_left_then_fail snes_armed))) \<and>
   new_transfer io_left_then_fail = None \<and>
   chk_err io_left_then_fail \<noteq> GRUB_USB_ERR_WAIT \<and>
   fst (grub_usb_snes_getkey grub2_term_h io_left_then_fail snes_armed)
     = GRUB_TERM_NO_KEY grub2_term_h \<and>
   dead (fst (snd (grub_usb_snes_getkey grub2_term_h io_left_then_fail snes_armed))) \<and>
   polls grub2_term_h [io_wait, io_left, io_error]
       (fst (snd (grub_usb_snes_getkey grub2_term_h io_left_then_fail snes_armed)))
     = (replicate (length [io_wait, io_left, io_error]) (GRUB_TERM_NO_KEY grub2_term_h, []),
        fst (snd (grub_usb_snes_getkey grub2_term_h io_left_then_fail snes_armed))) \<and>
   gp_transfer (fst (snd (gp_grub_usb_snes_getkey grub2_term_h io_left_then_fail gp_armed)))
     = None"
proof -
  let ?e = "fst (snd (grub_usb_snes_getkey grub2_term_h io_left_then_fail snes_armed))"
  note T = dead_session_by_variant
    [of grub2_term_h io_left_then_fail snes_armed ?e "[io_wait, io_left, io_error]" gp_armed]
  have a: "chk_actual io_left_then_fail \<ge> 1" by (simp add: io_facts)
  have b: "Bulk_read_background \<in>
     set (snd (snd (grub_usb_snes_getkey grub2_term_h io_left_then_fail snes_armed)))"
    using getkey_run [OF armed_facts(1,3) io_facts(13) a, of grub2_term_h]
    by (simp add: Let_def io_facts)
  have h1: "Bulk_read_background \<in>
     set (snd (snd (grub_usb_snes_getkey grub2_term_h io_left_then_fail snes_armed))) \<and>
    new_transfer io_left_then_fail = None"
    using b by (simp add: io_facts)
  note r1 = mp [OF conjunct1 [OF T] h1]
  note r2 = mp [OF conjunct1 [OF conjunct2 [OF T]] conjunct2 [OF r1]]
  have h3: "chk_err io_left_then_fail \<noteq> GRUB_USB_ERR_WAIT \<and> new_transfer io_left_then_fail = None"
    by (simp add: io_facts)
  note r3 = mp [OF conjunct2 [OF conjunct2 [OF T]] h3]
  show ?thesis
    by (intro conjI b conjunct1 [OF h3] conjunct2 [OF h3] conjunct1 [OF r1] conjunct2 [OF r1]
        r2 conjunct1 [OF r3])
qed

text \<open>
  C3 as stated fails on usb\_snes\_gamepad.c: the poll in which no new read can be started
  returns Left, not \<^verbatim>\<open>GRUB_TERM_NO_KEY\<close>, and the next poll checks a transfer again, with
  the null handle.
\<close>

theorem dead_session_counterexample:
  "new_transfer io_left_then_fail = None \<and>
   fst (gp_grub_usb_snes_getkey grub2_term_h io_left_then_fail gp_armed)
     = GRUB_TERM_KEY_LEFT grub2_term_h \<and>
   GRUB_TERM_KEY_LEFT grub2_term_h \<noteq> GRUB_TERM_NO_KEY grub2_term_h \<and>
   snd (snd (gp_grub_usb_snes_getkey grub2_term_h io_wait
              (fst (snd (gp_grub_usb_snes_getkey grub2_term_h io_left_then_fail gp_armed)))))
     = [Check_transfer None]"
proof -
  have w: "chk_err io_left_then_fail \<noteq> GRUB_USB_ERR_WAIT" by (simp add: io_facts)
  have "gp_transfer (fst (snd (gp_grub_usb_snes_getkey grub2_term_h io_left_then_fail gp_armed)))
          = None"
    using gp_getkey_done(2) [OF w, of grub2_term_h gp_armed] by (simp add: io_facts)
  then have n: "snd (snd (gp_grub_usb_snes_getkey grub2_term_h io_wait
              (fst (snd (gp_grub_usb_snes_getkey grub2_term_h io_left_then_fail gp_armed)))))
     = [Check_transfer None]"
    by (simp add: gp_grub_usb_snes_getkey_def [of grub2_term_h io_wait] io_facts)
  show ?thesis
    by (intro conjI n sample_gp_fail sample_left(3) io_facts(16))
qed

section \<open>Attach\<close>

lemma upt8: "[0..<8] = [0, 1, 2, 3, 4, 5, 6, 7]"
  by (simp add: upt_rec)

lemma first_free_init: "first_free (terms driver_init) [0..<8] 8 = 0"
  by (simp add: upt8 driver_init_def)

lemma driver_init_fields:
  "terms driver_init i = \<lparr>term_name = None, term_data = None\<rparr>" "mem driver_init p = None"
  "strs driver_init n = None" "inputs driver_init = {}" "reads driver_init = {}"
  by (simp_all add: driver_init_def)

lemma sample_devices:
  "is_supported_device (vendorid dev_pad) (prodid dev_pad)"
  "is_supported_device (vendorid dev_kbd) (prodid dev_kbd)"
  "\<not> is_supported_device (vendorid dev_other) (prodid dev_other)"
  "get_device_name (vendorid dev_other) (prodid dev_other) = None"
  "find_endp (descendp dev_pad) 0 = 0" "find_endp (descendp dev_kbd) 0 = 0"
  "find_endp (descendp dev_other) 0 = 0"
  "length (descendp dev_pad) = 1" "length (descendp dev_kbd) = 1" "length (descendp dev_other) = 1"
  "protocol dev_pad = 0" "protocol dev_kbd = 1" "protocol dev_other = 0"
  by (simp_all add: dev_pad_def dev_kbd_def dev_other_def is_supported_device_def
      supported_devices_def get_device_name_def known_devices_def)

lemma gp_attach_keyboard:
  "protocol dev = 1 \<Longrightarrow> gp_grub_usb_snes_attach env dev configno ifno w = (0, w)"
  by (simp add: gp_grub_usb_snes_attach_def ACCEPT_ANY_HID_def)

lemma gp_attach_passes:
  assumes "protocol dev \<noteq> 1"
    and "first_free (terms w) [0..<GAMEPADS_CAPACITY] GAMEPADS_CAPACITY < GAMEPADS_CAPACITY"
    and "find_endp (descendp dev) 0 \<noteq> length (descendp dev)"
    and "malloc_res env = Some p" "xasprintf_res env = Some n" "read_res env = Some t"
  shows "fst (gp_grub_usb_snes_attach env dev configno ifno w) = 1"
  using assms by (simp add: gp_grub_usb_snes_attach_def ACCEPT_ANY_HID_def Let_def)

lemma attach_unsupported:
  "\<not> is_supported_device (vendorid dev) (prodid dev) \<Longrightarrow>
   grub_usb_snes_attach env dev configno ifno w = (0, w)"
  by (simp add: grub_usb_snes_attach_def)

lemma attach_passes:
  assumes "is_supported_device (vendorid dev) (prodid dev)"
    and "first_free (terms w) [0..<MAX_GAMEPADS] MAX_GAMEPADS \<noteq> MAX_GAMEPADS"
    and "find_endp (descendp dev) 0 \<noteq> length (descendp dev)"
    and "malloc_res env = Some p" "xasprintf_res env = Some n" "read_res env = Some t"
  shows "fst (grub_usb_snes_attach env dev configno ifno w) = 1"
  using assms by (simp add: grub_usb_snes_attach_def Let_def)

lemma attach_rejects_early:
  "first_free (terms w) [0..<MAX_GAMEPADS] MAX_GAMEPADS = MAX_GAMEPADS \<or>
   find_endp (descendp dev) 0 = length (descendp dev) \<or> malloc_res env = None \<Longrightarrow>
   grub_usb_snes_attach env dev configno ifno w = (0, w)"
  by (auto simp add: grub_usb_snes_attach_def Let_def)

lemma gp_attach_rejects_early:
  "first_free (terms w) [0..<GAMEPADS_CAPACITY] GAMEPADS_CAPACITY \<ge> GAMEPADS_CAPACITY \<or>
   find_endp (descendp dev) 0 = length (descendp dev) \<or> malloc_res env = None \<Longrightarrow>
   gp_grub_usb_snes_attach env dev configno ifno w = (0, w)"
  by (auto simp add: gp_grub_usb_snes_attach_def Let_def)

lemma env_facts:
  "malloc_res env_ok = Some 100" "xasprintf_res env_ok = Some 200" "read_res env_ok = Some 300"
  "malloc_res env_no_name = Some 100" "xasprintf_res env_no_name = None"
  "read_res env_no_name = Some 300"
  "malloc_res env_no_read = Some 100" "xasprintf_res env_no_read = Some 200"
  "read_res env_no_read = None"
  by (simp_all add: env_ok_def env_no_name_def env_no_read_def)

lemma sample_attach_fails:
  "fst (grub_usb_snes_attach env_no_name dev_pad 0 0 driver_init) = 0"
  "term_data (terms (snd (grub_usb_snes_attach env_no_name dev_pad 0 0 driver_init)) 0) = Some 100"
  "mem (snd (grub_usb_snes_attach env_no_name dev_pad 0 0 driver_init)) 100 = None"
  "fst (gp_grub_usb_snes_attach env_no_read dev_pad 0 0 driver_init) = 0"
  "term_data (terms (snd (gp_grub_usb_snes_attach env_no_read dev_pad 0 0 driver_init)) 0) = Some 100"
  "mem (snd (gp_grub_usb_snes_attach env_no_read dev_pad 0 0 driver_init)) 100 = None"
  by (simp_all add: grub_usb_snes_attach_def gp_grub_usb_snes_attach_def Let_def
      sample_devices env_facts first_free_init MAX_GAMEPADS_def GAMEPADS_CAPACITY_def
      ACCEPT_ANY_HID_def driver_init_fields)

lemma sample_detach_dangling:
  "grub_usb_snes_detach 7 (snd (grub_usb_snes_attach env_no_name dev_pad 0 0 driver_init)) = None"
  "gp_grub_usb_snes_detach 7 (snd (gp_grub_usb_snes_attach env_no_read dev_pad 0 0 driver_init))
     = None"
  using sample_attach_fails(2,3,5,6)
  by (simp_all add: grub_usb_snes_detach_def gp_grub_usb_snes_detach_def MAX_GAMEPADS_def
      GAMEPADS_CAPACITY_def upt8 detach_slot_def)

text \<open>
  C7 (as amended). usb\_snes\_gamepad.c, built with \<^verbatim>\<open>ACCEPT_ANY_HID\<close> set, turns away a
  device whose interface protocol byte is 1 and lets every other device pass, on its list or
  not. usb\_snes.c never reads the protocol byte: it turns away exactly the devices that are
  not on its list and lets every listed device pass, also one with protocol byte 1. In both
  files a device that passes is attached when a slot is free, an interrupt IN endpoint exists
  and the allocations and the first read succeed.
\<close>

theorem attach_filter_by_variant:
  "(protocol kbd = 1 \<longrightarrow> gp_grub_usb_snes_attach env kbd configno ifno gw = (0, gw)) \<and>
   (protocol dev \<noteq> 1 \<and>
    first_free (terms gw) [0..<GAMEPADS_CAPACITY] GAMEPADS_CAPACITY < GAMEPADS_CAPACITY \<and>
    find_endp (descendp dev) 0 \<noteq> length (descendp dev) \<and>
    malloc_res env = Some p \<and> xasprintf_res env = Some n \<and> read_res env = Some t \<longrightarrow>
      fst (gp_grub_usb_snes_attach env dev configno ifno gw) = 1) \<and>
   (\<not> is_supported_device (vendorid other) (prodid other) \<longrightarrow>
      grub_usb_snes_attach env other configno ifno w = (0, w)) \<and>
   (is_supported_device (vendorid listed) (prodid listed) \<and>
    first_free (terms w) [0..<MAX_GAMEPADS] MAX_GAMEPADS \<noteq> MAX_GAMEPADS \<and>
    find_endp (descendp listed) 0 \<noteq> length (descendp listed) \<and>
    malloc_res env = Some p \<and> xasprintf_res env = Some n \<and> read_res env = Some t \<longrightarrow>
      fst (grub_usb_snes_attach env listed configno ifno w) = 1)"
proof (intro conjI impI)
  assume "protocol kbd = 1"
  then show "gp_grub_usb_snes_attach env kbd configno ifno gw = (0, gw)"
    by (rule gp_attach_keyboard)
next
  assume "protocol dev \<noteq> 1 \<and>
    first_free (terms gw) [0..<GAMEPADS_CAPACITY] GAMEPADS_CAPACITY < GAMEPADS_CAPACITY \<and>
    find_endp (descendp dev) 0 \<noteq> length (descendp dev) \<and>
    malloc_res env = Some p \<and> xasprintf_res env = Some n \<and> read_res env = Some t"
  then show "fst (gp_grub_usb_snes_attach env dev configno ifno gw) = 1"
    by (intro gp_attach_passes [of dev gw env p n t]) simp_all
next
  assume "\<not> is_supported_device (vendorid other) (prodid other)"
  then show "grub_usb_snes_attach env other configno ifno w = (0, w)"
    by (rule attach_unsupported)
next
  assume "is_supported_device (vendorid listed) (prodid listed) \<and>
    first_free (terms w) [0..<MAX_GAMEPADS] MAX_GAMEPADS \<noteq> MAX_GAMEPADS \<and>
    find_endp (descendp listed) 0 \<noteq> length (descendp listed) \<and>
    malloc_res env = Some p \<and> xasprintf_res env = Some n \<and> read_res env = Some t"
  then show "fst (grub_usb_snes_attach env listed configno ifno w) = 1"
    by (intro attach_passes [of listed w env p n t]) simp_all
qed

lemma sample_attach_hyps:
  "first_free (terms (driver_init :: gp_data driver)) [0..<GAMEPADS_CAPACITY] GAMEPADS_CAPACITY
     < GAMEPADS_CAPACITY"
  "first_free (terms (driver_init :: snes_data driver)) [0..<MAX_GAMEPADS] MAX_GAMEPADS
     \<noteq> MAX_GAMEPADS"
  "find_endp (descendp dev_other) 0 \<noteq> length (descendp dev_other)"
  "find_endp (descendp dev_kbd) 0 \<noteq> length (descendp dev_kbd)"
  "protocol dev_other \<noteq> 1"
  by (simp_all add: GAMEPADS_CAPACITY_def MAX_GAMEPADS_def first_free_init sample_devices)

theorem attach_filter_by_variant_witness:
  "protocol dev_kbd = 1 \<and>
   gp_grub_usb_snes_attach env_ok dev_kbd 0 0 driver_init = (0, driver_init) \<and>
   protocol dev_other \<noteq> 1 \<and> get_device_name (vendorid dev_other) (prodid dev_other) = None \<and>
   fst (gp_grub_usb_snes_attach env_ok dev_other 0 0 driver_init) = 1 \<and>
   \<not> is_supported_device (vendorid dev_other) (prodid dev_other) \<and>
   grub_usb_snes_attach env_ok dev_other 0 0 driver_init = (0, driver_init) \<and>
   is_supported_device (vendorid dev_kbd) (prodid dev_kbd) \<and>
   fst (grub_usb_snes_attach env_ok dev_kbd 0 0 driver_init) = 1"
proof -
  note T = attach_filter_by_variant
    [of dev_kbd env_ok 0 0 driver_init dev_other 100 200 300 dev_other driver_init dev_kbd]
  note r1 = mp [OF conjunct1 [OF T] sample_devices(12)]
  have h2: "protocol dev_other \<noteq> 1 \<and>
    first_free (terms (driver_init :: gp_data driver)) [0..<GAMEPADS_CAPACITY] GAMEPADS_CAPACITY
      < GAMEPADS_CAPACITY \<and>
    find_endp (descendp dev_other) 0 \<noteq> length (descendp dev_other) \<and>
    malloc_res env_ok = Some 100 \<and> xasprintf_res env_ok = Some 200 \<and> read_res env_ok = Some 300"
    by (intro conjI sample_attach_hyps env_facts)
  note r2 = mp [OF conjunct1 [OF conjunct2 [OF T]] h2]
  note r3 = mp [OF conjunct1 [OF conjunct2 [OF conjunct2 [OF T]]] sample_devices(3)]
  have h4: "is_supported_device (vendorid dev_kbd) (prodid dev_kbd) \<and>
    first_free (terms (driver_init :: snes_data driver)) [0..<MAX_GAMEPADS] MAX_GAMEPADS
      \<noteq> MAX_GAMEPADS \<and>
    find_endp (descendp dev_kbd) 0 \<noteq> length (descendp dev_kbd) \<and>
    malloc_res env_ok = Some 100 \<and> xasprintf_res env_ok = Some 200 \<and> read_res env_ok = Some 300"
    by (intro conjI sample_attach_hyps env_facts sample_devices)
  note r4 = mp [OF conjunct2 [OF conjunct2 [OF conjunct2 [OF T]]] h4]
  show ?thesis
    by (intro conjI r1 r2 r3 r4 sample_devices(2,3,4,12) sample_attach_hyps(5))
qed

text \<open>
  C7 as stated fails on usb\_snes.c: a listed device that reports the keyboard protocol is
  attached.
\<close>

theorem attach_filter_counterexample:
  "protocol dev_kbd = 1 \<and> fst (grub_usb_snes_attach env_ok dev_kbd 0 0 driver_init) = 1"
proof -
  have "fst (grub_usb_snes_attach env_ok dev_kbd 0 0 driver_init) = 1"
    by (intro attach_passes [of dev_kbd driver_init env_ok 100 200 300]
        sample_attach_hyps env_facts sample_devices)
  then show ?thesis by (intro conjI sample_devices(12))
qed

text \<open>
  C8 does not hold of the code, in either file. In usb\_snes.c an attach that fails because
  \<^verbatim>\<open>grub_xasprintf\<close> returns \<^verbatim>\<open>NULL\<close> frees the session but has already stored its pointer in
  the slot; in usb\_snes\_gamepad.c an attach that fails because the first read cannot be
  started frees the session and leaves its pointer in the slot. Either way the slot stays
  occupied by a pointer to freed memory, which the next detach of the device reads. Each file
  clears or never sets the pointer on the path where the other one slips.
\<close>

theorem attach_failure_leaves_slot_occupied:
  "fst (grub_usb_snes_attach env_no_name dev_pad 0 0 driver_init) = 0 \<and>
   term_data (terms (snd (grub_usb_snes_attach env_no_name dev_pad 0 0 driver_init)) 0)
     = Some 100 \<and>
   mem (snd (grub_usb_snes_attach env_no_name dev_pad 0 0 driver_init)) 100 = None \<and>
   grub_usb_snes_detach 7 (snd (grub_usb_snes_attach env_no_name dev_pad 0 0 driver_init))
     = None \<and>
   term_data (terms (snd (grub_usb_snes_attach env_no_read dev_pad 0 0 driver_init)) 0) = None \<and>
   fst (gp_grub_usb_snes_attach env_no_read dev_pad 0 0 driver_init) = 0 \<and>
   term_data (terms (snd (gp_grub_usb_snes_attach env_no_read dev_pad 0 0 driver_init)) 0)
     = Some 100 \<and>
   mem (snd (gp_grub_usb_snes_attach env_no_read dev_pad 0 0 driver_init)) 100 = None \<and>
   gp_grub_usb_snes_detach 7 (snd (gp_grub_usb_snes_attach env_no_read dev_pad 0 0 driver_init))
     = None \<and>
   term_data (terms (snd (gp_grub_usb_snes_attach env_no_name dev_pad 0 0 driver_init)) 0) = None"
proof -
  have a: "term_data (terms (snd (grub_usb_snes_attach env_no_read dev_pad 0 0 driver_init)) 0)
      = None"
    by (simp add: grub_usb_snes_attach_def Let_def sample_devices env_facts first_free_init
        MAX_GAMEPADS_def driver_init_fields)
  have b: "term_data (terms (snd (gp_grub_usb_snes_attach env_no_name dev_pad 0 0 driver_init)) 0)
      = None"
    by (simp add: gp_grub_usb_snes_attach_def Let_def sample_devices env_facts first_free_init
        GAMEPADS_CAPACITY_def ACCEPT_ANY_HID_def driver_init_fields)
  show ?thesis
    by (intro conjI a b sample_attach_fails sample_detach_dangling)
qed

section \<open>Detach\<close>

lemma release_empty: "release transfer_of {} w = w"
  by (simp add: release_def)

lemma slots_ok_mem:
  "slots_ok w n \<Longrightarrow> i < n \<Longrightarrow> term_data (terms w i) = Some p \<Longrightarrow> mem w p \<noteq> None"
  unfolding slots_ok_def by blast

lemma slots_ok_distinct:
  "slots_ok w n \<Longrightarrow> i < n \<Longrightarrow> j < n \<Longrightarrow> j \<noteq> i \<Longrightarrow> term_data (terms w i) = Some p \<Longrightarrow>
   term_data (terms w j) \<noteq> Some p"
  unfolding slots_ok_def by blast

lemma detach_slot_no_match:
  assumes "slots_ok w n" "i < n" "\<not> slot_matches dev_of w dev i"
  shows "detach_slot dev_of transfer_of dev i w = Some w"
proof (cases "term_data (terms w i)")
  case None
  then show ?thesis by (simp add: detach_slot_def)
next
  case (Some p)
  then obtain data where d: "mem w p = Some data"
    using slots_ok_mem [OF assms(1,2), of p] by auto
  then show ?thesis using Some assms(3) by (simp add: detach_slot_def slot_matches_def)
qed

lemma detach_slot_match:
  assumes "slot_matches dev_of w dev i"
  shows "detach_slot dev_of transfer_of dev i w = Some (release transfer_of {i} w)"
proof -
  obtain p data where p: "term_data (terms w i) = Some p" and d: "mem w p = Some data"
    and e: "dev_of data = dev"
    using assms by (auto simp add: slot_matches_def split: option.splits)
  have r: "(case transfer_of data of None \<Rightarrow> reads w | Some t \<Rightarrow> reads w - {t}) =
        reads w - {t. transfer_of data = Some t}"
    by (cases "transfer_of data") auto
  have s: "(case term_name (terms w i) of None \<Rightarrow> strs w | Some n \<Rightarrow> (strs w)(n := None)) =
        (\<lambda>n. if term_name (terms w i) = Some n then None else strs w n)"
    by (cases "term_name (terms w i)") auto
  have t: "(terms w)(i := \<lparr>term_name = None, term_data = None\<rparr>) =
        (\<lambda>j. if j = i then \<lparr>term_name = None, term_data = None\<rparr> else terms w j)"
    by auto
  have q: "(mem w)(p := None) = (\<lambda>x. if p = x then None else mem w x)"
    by auto
  show ?thesis
    using p d e by (simp add: detach_slot_def release_def r s t q)
qed

lemma release_one_others:
  assumes "slots_ok w n" "i < n" "j < n" "j \<noteq> i"
  shows "terms (release transfer_of {i} w) j = terms w j"
    and "term_data (terms w j) = Some q \<Longrightarrow> mem (release transfer_of {i} w) q = mem w q"
    and "slot_matches dev_of (release transfer_of {i} w) dev j = slot_matches dev_of w dev j"
proof -
  show t: "terms (release transfer_of {i} w) j = terms w j"
    using assms(4) by (simp add: release_def)
  show m: "mem (release transfer_of {i} w) q = mem w q" if "term_data (terms w j) = Some q" for q
  proof -
    have "term_data (terms w i) \<noteq> Some q"
      using slots_ok_distinct [OF assms(1) assms(3) assms(2) _ that] assms(4) by auto
    then show ?thesis by (simp add: release_def)
  qed
  show "slot_matches dev_of (release transfer_of {i} w) dev j = slot_matches dev_of w dev j"
  proof (cases "term_data (terms w j)")
    case None
    then show ?thesis using t by (simp add: slot_matches_def)
  next
    case (Some q)
    then show ?thesis using t m [OF Some] by (simp add: slot_matches_def)
  qed
qed

lemma release_one_ok:
  assumes "slots_ok w n" "i < n"
  shows "slots_ok (release transfer_of {i} w) n"
  unfolding slots_ok_def
proof (intro allI impI)
  fix j p
  assume j: "j < n" and p: "term_data (terms (release transfer_of {i} w) j) = Some p"
  have ji: "j \<noteq> i" using p by (auto simp add: release_def)
  have pj: "term_data (terms w j) = Some p"
    using p release_one_others(1) [OF assms j ji, of transfer_of] by simp
  have "mem (release transfer_of {i} w) p = mem w p"
    using release_one_others(2) [OF assms j ji pj] .
  then have a: "mem (release transfer_of {i} w) p \<noteq> None"
    using slots_ok_mem [OF assms(1) j pj] by simp
  have b: "term_data (terms (release transfer_of {i} w) l) \<noteq> Some p" if "l < n" "l \<noteq> j" for l
  proof (cases "l = i")
    case True
    then show ?thesis by (simp add: release_def)
  next
    case False
    then show ?thesis
      using release_one_others(1) [OF assms that(1) False, of transfer_of]
        slots_ok_distinct [OF assms(1) j that(1) that(2) pj] by simp
  qed
  show "mem (release transfer_of {i} w) p \<noteq> None \<and>
      (\<forall>l<n. l \<noteq> j \<longrightarrow> term_data (terms (release transfer_of {i} w) l) \<noteq> Some p)"
    using a b by blast
qed

lemma release_compose:
  assumes "slots_ok w n" "i < n" "M \<subseteq> {..<n}" "i \<notin> M"
  shows "release transfer_of M (release transfer_of {i} w) = release transfer_of (insert i M) w"
proof -
  let ?w1 = "release transfer_of {i} w"
  have o: "terms ?w1 j = terms w j" if "j \<in> M" for j
    using that assms by (intro release_one_others(1) [OF assms(1,2)]) auto
  have om: "mem ?w1 q = mem w q" if "j \<in> M" "term_data (terms w j) = Some q" for j q
    using that assms by (intro release_one_others(2) [OF assms(1,2), of j]) auto
  have f_terms: "terms (release transfer_of M ?w1) = terms (release transfer_of (insert i M) w)"
    by (rule ext) (simp add: release_def)
  have f_inputs: "inputs (release transfer_of M ?w1) = inputs (release transfer_of (insert i M) w)"
    by (auto simp add: release_def)
  have f_mem: "mem (release transfer_of M ?w1) = mem (release transfer_of (insert i M) w)"
  proof (rule ext)
    fix q
    have "(\<exists>j\<in>M. term_data (terms ?w1 j) = Some q) = (\<exists>j\<in>M. term_data (terms w j) = Some q)"
      using o by auto
    then show "mem (release transfer_of M ?w1) q = mem (release transfer_of (insert i M) w) q"
      by (simp add: release_def [of transfer_of M] release_def [of transfer_of "insert i M"])
         (simp add: release_def)
  qed
  have f_strs: "strs (release transfer_of M ?w1) = strs (release transfer_of (insert i M) w)"
  proof (rule ext)
    fix m
    have "(\<exists>j\<in>M. term_name (terms ?w1 j) = Some m) = (\<exists>j\<in>M. term_name (terms w j) = Some m)"
      using o by auto
    then show "strs (release transfer_of M ?w1) m = strs (release transfer_of (insert i M) w) m"
      by (simp add: release_def [of transfer_of M] release_def [of transfer_of "insert i M"])
         (simp add: release_def)
  qed
  have rd: "{t. \<exists>j\<in>M. \<exists>p data. term_data (terms ?w1 j) = Some p \<and> mem ?w1 p = Some data \<and>
                 transfer_of data = Some t} =
            {t. \<exists>j\<in>M. \<exists>p data. term_data (terms w j) = Some p \<and> mem w p = Some data \<and>
                 transfer_of data = Some t}"
    using o om by (intro Collect_cong bex_cong refl) (metis (no_types, lifting))
  have f_reads: "reads (release transfer_of M ?w1) = reads (release transfer_of (insert i M) w)"
  proof -
    have "reads (release transfer_of M ?w1) = reads ?w1 -
        {t. \<exists>j\<in>M. \<exists>p data. term_data (terms w j) = Some p \<and> mem w p = Some data \<and>
                 transfer_of data = Some t}"
      using rd by (simp add: release_def [of transfer_of M])
    then show ?thesis by (auto simp add: release_def)
  qed
  show ?thesis
    by (rule driver.equality) (simp_all add: f_terms f_inputs f_mem f_strs f_reads)
qed

lemma detach_loop_detached:
  assumes "slots_ok w n" "set slots \<subseteq> {..<n}" "distinct slots"
  shows "detach_loop dev_of transfer_of dev slots w =
           Some (detached dev_of transfer_of dev (set slots) w)"
  using assms
proof (induction slots arbitrary: w)
  case Nil
  then show ?case by (simp add: detached_def release_empty)
next
  case (Cons i rest)
  have i: "i < n" and rest: "set rest \<subseteq> {..<n}" "distinct rest" "i \<notin> set rest"
    using Cons.prems by auto
  show ?case
  proof (cases "slot_matches dev_of w dev i")
    case False
    have "{j \<in> set (i # rest). slot_matches dev_of w dev j} =
          {j \<in> set rest. slot_matches dev_of w dev j}"
      using False by auto
    then show ?thesis
      using Cons.IH [OF Cons.prems(1) rest(1,2)] detach_slot_no_match [OF Cons.prems(1) i False]
      by (simp add: detached_def)
  next
    case True
    let ?w1 = "release transfer_of {i} w"
    let ?M = "{j \<in> set rest. slot_matches dev_of w dev j}"
    have ok1: "slots_ok ?w1 n" using Cons.prems(1) i by (rule release_one_ok)
    have "slot_matches dev_of ?w1 dev j = slot_matches dev_of w dev j" if "j \<in> set rest" for j
      using that rest i by (intro release_one_others(3) [OF Cons.prems(1)]) auto
    then have M1: "{j \<in> set rest. slot_matches dev_of ?w1 dev j} = ?M" by auto
    have M: "?M \<subseteq> {..<n}" "i \<notin> ?M" using rest by auto
    have ins: "insert i ?M = {j \<in> set (i # rest). slot_matches dev_of w dev j}"
      using True by auto
    have "detach_loop dev_of transfer_of dev rest ?w1 = Some (release transfer_of ?M ?w1)"
      using Cons.IH [OF ok1 rest(1,2)] by (simp add: detached_def M1)
    then show ?thesis
      using detach_slot_match [OF True, of transfer_of]
        release_compose [OF Cons.prems(1) i M, of transfer_of] ins
      by (simp add: detached_def)
  qed
qed

lemma release_ok:
  assumes "slots_ok w n" "M \<subseteq> {..<n}"
  shows "slots_ok (release transfer_of M w) n"
  unfolding slots_ok_def
proof (intro allI impI)
  fix j p
  assume j: "j < n" and p: "term_data (terms (release transfer_of M w) j) = Some p"
  have jM: "j \<notin> M" using p by (auto simp add: release_def)
  then have pj: "term_data (terms w j) = Some p" using p by (simp add: release_def)
  have "term_data (terms w i) \<noteq> Some p" if "i \<in> M" for i
    using slots_ok_distinct [OF assms(1) j _ _ pj, of i] that jM assms(2) by auto
  then have "mem (release transfer_of M w) p = mem w p" by (auto simp add: release_def)
  then have a: "mem (release transfer_of M w) p \<noteq> None"
    using slots_ok_mem [OF assms(1) j pj] by simp
  have b: "term_data (terms (release transfer_of M w) l) \<noteq> Some p" if "l < n" "l \<noteq> j" for l
    using slots_ok_distinct [OF assms(1) j that(1) that(2) pj] by (simp add: release_def)
  show "mem (release transfer_of M w) p \<noteq> None \<and>
      (\<forall>l<n. l \<noteq> j \<longrightarrow> term_data (terms (release transfer_of M w) l) \<noteq> Some p)"
    using a b by blast
qed

lemma detached_ok:
  "slots_ok w n \<Longrightarrow> S \<subseteq> {..<n} \<Longrightarrow> slots_ok (detached dev_of transfer_of dev S w) n"
  unfolding detached_def by (intro release_ok) auto

lemma detached_no_match_left:
  assumes "j \<in> S"
  shows "\<not> slot_matches dev_of (detached dev_of transfer_of dev S w) dev j"
proof (cases "slot_matches dev_of w dev j")
  case True
  then show ?thesis using assms by (simp add: detached_def release_def slot_matches_def)
next
  case False
  then have t: "terms (detached dev_of transfer_of dev S w) j = terms w j"
    by (simp add: detached_def release_def)
  show ?thesis
  proof (cases "term_data (terms w j)")
    case None
    then show ?thesis using t by (simp add: slot_matches_def)
  next
    case (Some q)
    have "mem (detached dev_of transfer_of dev S w) q = None \<or>
          mem (detached dev_of transfer_of dev S w) q = mem w q"
      by (simp add: detached_def release_def)
    then show ?thesis using t Some False by (auto simp add: slot_matches_def split: option.splits)
  qed
qed

lemma detached_no_match:
  assumes "\<forall>i\<in>S. \<not> slot_matches dev_of w dev i"
  shows "detached dev_of transfer_of dev S w = w"
proof -
  have "{i \<in> S. slot_matches dev_of w dev i} = {}" using assms by auto
  then show ?thesis unfolding detached_def by (simp only: release_empty)
qed

lemma detached_matched_slot:
  assumes "i \<in> S" "term_data (terms w i) = Some p" "mem w p = Some data" "dev_of data = dev"
  shows "terms (detached dev_of transfer_of dev S w) i = \<lparr>term_name = None, term_data = None\<rparr>"
    and "i \<notin> inputs (detached dev_of transfer_of dev S w)"
    and "mem (detached dev_of transfer_of dev S w) p = None"
    and "transfer_of data = Some t \<Longrightarrow> t \<notin> reads (detached dev_of transfer_of dev S w)"
proof -
  have m: "slot_matches dev_of w dev i" using assms by (simp add: slot_matches_def)
  show "terms (detached dev_of transfer_of dev S w) i = \<lparr>term_name = None, term_data = None\<rparr>"
    using m assms(1) by (simp add: detached_def release_def)
  show "i \<notin> inputs (detached dev_of transfer_of dev S w)"
    using m assms(1) by (simp add: detached_def release_def)
  show "mem (detached dev_of transfer_of dev S w) p = None"
    using m assms(1,2) by (auto simp add: detached_def release_def)
  show "t \<notin> reads (detached dev_of transfer_of dev S w)" if "transfer_of data = Some t"
    using m assms that by (auto simp add: detached_def release_def)
qed

lemma detached_other_slot:
  assumes "\<not> slot_matches dev_of w dev j"
  shows "terms (detached dev_of transfer_of dev S w) j = terms w j"
    and "(j \<in> inputs (detached dev_of transfer_of dev S w)) = (j \<in> inputs w)"
  using assms by (simp_all add: detached_def release_def)

lemma detach_loop_all:
  assumes "slots_ok w n"
  shows "detach_loop dev_of transfer_of dev [0..<n] w =
           Some (detached dev_of transfer_of dev {..<n} w)"
proof -
  have "set [0..<n] = {..<n}" by auto
  moreover have "detach_loop dev_of transfer_of dev [0..<n] w =
           Some (detached dev_of transfer_of dev (set [0..<n]) w)"
    using assms by (intro detach_loop_detached [where n = n]) auto
  ultimately show ?thesis by (simp only:)
qed

lemma detach_is_detached:
  "slots_ok w MAX_GAMEPADS \<Longrightarrow>
   grub_usb_snes_detach dev w = Some (detached usbdev transfer dev {..<MAX_GAMEPADS} w)"
  "slots_ok g GAMEPADS_CAPACITY \<Longrightarrow>
   gp_grub_usb_snes_detach dev g =
     Some (detached gp_usbdev gp_transfer dev {..<GAMEPADS_CAPACITY} g)"
  unfolding grub_usb_snes_detach_def gp_grub_usb_snes_detach_def
  by (rule detach_loop_all, assumption)+

lemma detach_twice:
  assumes "slots_ok w MAX_GAMEPADS"
  shows "grub_usb_snes_detach dev (detached usbdev transfer dev {..<MAX_GAMEPADS} w) =
           Some (detached usbdev transfer dev {..<MAX_GAMEPADS} w)"
proof -
  let ?w' = "detached usbdev transfer dev {..<MAX_GAMEPADS} w"
  have "slots_ok ?w' MAX_GAMEPADS" using assms by (intro detached_ok) auto
  then have "grub_usb_snes_detach dev ?w' =
      Some (detached usbdev transfer dev {..<MAX_GAMEPADS} ?w')"
    by (rule detach_is_detached)
  moreover have "detached usbdev transfer dev {..<MAX_GAMEPADS} ?w' = ?w'"
    by (intro detached_no_match ballI detached_no_match_left)
  ultimately show ?thesis by simp
qed

lemma gp_detach_twice:
  assumes "slots_ok g GAMEPADS_CAPACITY"
  shows "gp_grub_usb_snes_detach dev (detached gp_usbdev gp_transfer dev {..<GAMEPADS_CAPACITY} g) =
           Some (detached gp_usbdev gp_transfer dev {..<GAMEPADS_CAPACITY} g)"
proof -
  let ?g' = "detached gp_usbdev gp_transfer dev {..<GAMEPADS_CAPACITY} g"
  have "slots_ok ?g' GAMEPADS_CAPACITY" using assms by (intro detached_ok) auto
  then have "gp_grub_usb_snes_detach dev ?g' =
      Some (detached gp_usbdev gp_transfer dev {..<GAMEPADS_CAPACITY} ?g')"
    by (rule detach_is_detached)
  moreover have "detached gp_usbdev gp_transfer dev {..<GAMEPADS_CAPACITY} ?g' = ?g'"
    by (intro detached_no_match ballI detached_no_match_left)
  ultimately show ?thesis by simp
qed

lemma sample_more: "dev_ptr dev_pad = 7" "malloc_junk env_ok = replicate 32 0"
  by (simp_all add: dev_pad_def env_ok_def)

lemma attached_fields:
  "terms snes_attached i =
     (if i = 0 then \<lparr>term_name = Some 200, term_data = Some 100\<rparr>
      else \<lparr>term_name = None, term_data = None\<rparr>)"
  "mem snes_attached p =
     (if p = 100 then Some ((snes_data_init 7 0 0)\<lparr>transfer := Some 300\<rparr>) else None)"
  "inputs snes_attached = {0}" "reads snes_attached = {300}"
  "terms gp_attached i =
     (if i = 0 then \<lparr>term_name = Some 200, term_data = Some 100\<rparr>
      else \<lparr>term_name = None, term_data = None\<rparr>)"
  "mem gp_attached p =
     (if p = 100 then Some ((gp_data_init (replicate 32 0) 7 0 0 0)\<lparr>gp_transfer := Some 300\<rparr>)
      else None)"
  "inputs gp_attached = {0}" "reads gp_attached = {300}"
  by (simp_all add: snes_attached_def gp_attached_def grub_usb_snes_attach_def
      gp_grub_usb_snes_attach_def Let_def sample_devices env_facts first_free_init
      MAX_GAMEPADS_def GAMEPADS_CAPACITY_def ACCEPT_ANY_HID_def driver_init_fields
      sample_more)

lemma attached_ok:
  "slots_ok snes_attached MAX_GAMEPADS" "slots_ok gp_attached GAMEPADS_CAPACITY"
  by (simp_all add: slots_ok_def attached_fields)

text \<open>
  Detach on a table in order. In both files, on a table in which every occupied slot points
  to a live session of its own, detach returns and leaves the table that \<open>detached\<close>
  describes: every slot whose session belongs to the given device has its read cancelled, its
  input unregistered, its name and session freed and its two pointers cleared, and nothing
  else is touched. When no slot belongs to the device nothing changes, and detaching the same
  device a second time changes nothing more.
\<close>

theorem detach_frees_matching_slots:
  "(slots_ok w MAX_GAMEPADS \<longrightarrow>
      grub_usb_snes_detach dev w = Some (detached usbdev transfer dev {..<MAX_GAMEPADS} w) \<and>
      grub_usb_snes_detach dev (detached usbdev transfer dev {..<MAX_GAMEPADS} w) =
        Some (detached usbdev transfer dev {..<MAX_GAMEPADS} w)) \<and>
   (slots_ok g GAMEPADS_CAPACITY \<longrightarrow>
      gp_grub_usb_snes_detach dev g =
        Some (detached gp_usbdev gp_transfer dev {..<GAMEPADS_CAPACITY} g) \<and>
      gp_grub_usb_snes_detach dev (detached gp_usbdev gp_transfer dev {..<GAMEPADS_CAPACITY} g) =
        Some (detached gp_usbdev gp_transfer dev {..<GAMEPADS_CAPACITY} g)) \<and>
   (i \<in> S \<and> term_data (terms v i) = Some p \<and> mem v p = Some data \<and> dev_of data = dev \<longrightarrow>
      terms (detached dev_of transfer_of dev S v) i = \<lparr>term_name = None, term_data = None\<rparr> \<and>
      i \<notin> inputs (detached dev_of transfer_of dev S v) \<and>
      mem (detached dev_of transfer_of dev S v) p = None \<and>
      (\<forall>t. transfer_of data = Some t \<longrightarrow> t \<notin> reads (detached dev_of transfer_of dev S v))) \<and>
   (\<not> slot_matches dev_of v dev j \<longrightarrow>
      terms (detached dev_of transfer_of dev S v) j = terms v j \<and>
      (j \<in> inputs (detached dev_of transfer_of dev S v)) = (j \<in> inputs v)) \<and>
   ((\<forall>i\<in>S. \<not> slot_matches dev_of v dev' i) \<longrightarrow> detached dev_of transfer_of dev' S v = v)"
proof (intro conjI impI allI)
  assume "slots_ok w MAX_GAMEPADS"
  then show "grub_usb_snes_detach dev w = Some (detached usbdev transfer dev {..<MAX_GAMEPADS} w)"
    and "grub_usb_snes_detach dev (detached usbdev transfer dev {..<MAX_GAMEPADS} w) =
        Some (detached usbdev transfer dev {..<MAX_GAMEPADS} w)"
    by (rule detach_is_detached, rule detach_twice)
next
  assume "slots_ok g GAMEPADS_CAPACITY"
  then show "gp_grub_usb_snes_detach dev g =
        Some (detached gp_usbdev gp_transfer dev {..<GAMEPADS_CAPACITY} g)"
    and "gp_grub_usb_snes_detach dev (detached gp_usbdev gp_transfer dev {..<GAMEPADS_CAPACITY} g) =
        Some (detached gp_usbdev gp_transfer dev {..<GAMEPADS_CAPACITY} g)"
    by (rule detach_is_detached, rule gp_detach_twice)
next
  assume a: "i \<in> S \<and> term_data (terms v i) = Some p \<and> mem v p = Some data \<and> dev_of data = dev"
  then have b: "i \<in> S" "term_data (terms v i) = Some p" "mem v p = Some data" "dev_of data = dev"
    by simp_all
  show "terms (detached dev_of transfer_of dev S v) i = \<lparr>term_name = None, term_data = None\<rparr>"
    by (rule detached_matched_slot(1) [where dev_of = dev_of, OF b])
  show "i \<notin> inputs (detached dev_of transfer_of dev S v)"
    by (rule detached_matched_slot(2) [where dev_of = dev_of, OF b])
  show "mem (detached dev_of transfer_of dev S v) p = None"
    by (rule detached_matched_slot(3) [where dev_of = dev_of, OF b])
  show "t \<notin> reads (detached dev_of transfer_of dev S v)" if "transfer_of data = Some t" for t
    by (rule detached_matched_slot(4) [where dev_of = dev_of and transfer_of = transfer_of, OF b that])
next
  assume "\<not> slot_matches dev_of v dev j"
  then show "terms (detached dev_of transfer_of dev S v) j = terms v j"
    and "(j \<in> inputs (detached dev_of transfer_of dev S v)) = (j \<in> inputs v)"
    by (rule detached_other_slot)+
next
  assume "\<forall>i\<in>S. \<not> slot_matches dev_of v dev' i"
  then show "detached dev_of transfer_of dev' S v = v"
    by (rule detached_no_match)
qed

theorem detach_frees_matching_slots_witness:
  "slots_ok snes_attached MAX_GAMEPADS \<and> slots_ok gp_attached GAMEPADS_CAPACITY \<and>
   term_data (terms snes_attached 0) = Some 100 \<and>
   mem snes_attached 100 = Some ((snes_data_init 7 0 0)\<lparr>transfer := Some 300\<rparr>) \<and>
   0 \<in> inputs snes_attached \<and> 300 \<in> reads snes_attached \<and>
   grub_usb_snes_detach 7 snes_attached =
     Some (detached usbdev transfer 7 {..<MAX_GAMEPADS} snes_attached) \<and>
   terms (detached usbdev transfer 7 {..<MAX_GAMEPADS} snes_attached) 0
     = \<lparr>term_name = None, term_data = None\<rparr> \<and>
   0 \<notin> inputs (detached usbdev transfer 7 {..<MAX_GAMEPADS} snes_attached) \<and>
   mem (detached usbdev transfer 7 {..<MAX_GAMEPADS} snes_attached) 100 = None \<and>
   300 \<notin> reads (detached usbdev transfer 7 {..<MAX_GAMEPADS} snes_attached) \<and>
   grub_usb_snes_detach 9 snes_attached = Some snes_attached \<and>
   gp_grub_usb_snes_detach 7 gp_attached =
     Some (detached gp_usbdev gp_transfer 7 {..<GAMEPADS_CAPACITY} gp_attached) \<and>
   terms (detached gp_usbdev gp_transfer 7 {..<GAMEPADS_CAPACITY} gp_attached) 0
     = \<lparr>term_name = None, term_data = None\<rparr> \<and>
   gp_grub_usb_snes_detach 9 gp_attached = Some gp_attached"
proof -
  let ?d = "(snes_data_init 7 0 0)\<lparr>transfer := Some 300\<rparr>"
  let ?e = "(gp_data_init (replicate 32 0) 7 0 0 0)\<lparr>gp_transfer := Some 300\<rparr>"
  note T7 = detach_frees_matching_slots
    [where w = snes_attached and g = gp_attached and dev = 7 and i = 0
       and S = "{..<MAX_GAMEPADS}" and v = snes_attached and p = 100 and data = ?d
       and dev_of = usbdev and transfer_of = transfer and j = 1 and dev' = 9]
  note G7 = detach_frees_matching_slots
    [where w = snes_attached and g = gp_attached and dev = 7 and i = 0
       and S = "{..<GAMEPADS_CAPACITY}" and v = gp_attached and p = 100 and data = ?e
       and dev_of = gp_usbdev and transfer_of = gp_transfer and j = 1 and dev' = 9]
  note T9 = detach_frees_matching_slots
    [where w = snes_attached and g = gp_attached and dev = 9]
  have f: "term_data (terms snes_attached 0) = Some 100" "mem snes_attached 100 = Some ?d"
    "0 \<in> inputs snes_attached" "300 \<in> reads snes_attached"
    "term_data (terms gp_attached 0) = Some 100" "mem gp_attached 100 = Some ?e"
    by (simp_all add: attached_fields)
  have h: "0 \<in> {..<MAX_GAMEPADS} \<and> term_data (terms snes_attached 0) = Some 100 \<and>
      mem snes_attached 100 = Some ?d \<and> usbdev ?d = 7"
    using f by (simp add: MAX_GAMEPADS_def snes_data_init_def)
  have hg: "0 \<in> {..<GAMEPADS_CAPACITY} \<and> term_data (terms gp_attached 0) = Some 100 \<and>
      mem gp_attached 100 = Some ?e \<and> gp_usbdev ?e = 7"
    using f by (simp add: GAMEPADS_CAPACITY_def gp_data_init_def)
  have n: "\<forall>i\<in>{..<MAX_GAMEPADS}. \<not> slot_matches usbdev snes_attached 9 i"
    by (simp add: slot_matches_def attached_fields snes_data_init_def)
  have ng: "\<forall>i\<in>{..<GAMEPADS_CAPACITY}. \<not> slot_matches gp_usbdev gp_attached 9 i"
    by (simp add: slot_matches_def attached_fields gp_data_init_def)
  note r1 = mp [OF conjunct1 [OF T7] attached_ok(1)]
  note m = mp [OF conjunct1 [OF conjunct2 [OF conjunct2 [OF T7]]] h]
  have r300: "300 \<notin> reads (detached usbdev transfer 7 {..<MAX_GAMEPADS} snes_attached)"
    using conjunct2 [OF conjunct2 [OF conjunct2 [OF m]]] by simp
  have "detached usbdev transfer 9 {..<MAX_GAMEPADS} snes_attached = snes_attached"
    using mp [OF conjunct2 [OF conjunct2 [OF conjunct2 [OF conjunct2 [OF T7]]]] n] .
  then have r9: "grub_usb_snes_detach 9 snes_attached = Some snes_attached"
    using mp [OF conjunct1 [OF T9] attached_ok(1)] by simp
  note g1 = mp [OF conjunct1 [OF conjunct2 [OF G7]] attached_ok(2)]
  note mg = mp [OF conjunct1 [OF conjunct2 [OF conjunct2 [OF G7]]] hg]
  have "detached gp_usbdev gp_transfer 9 {..<GAMEPADS_CAPACITY} gp_attached = gp_attached"
    using mp [OF conjunct2 [OF conjunct2 [OF conjunct2 [OF conjunct2 [OF G7]]]] ng] .
  then have g9: "gp_grub_usb_snes_detach 9 gp_attached = Some gp_attached"
    using mp [OF conjunct1 [OF conjunct2 [OF T9]] attached_ok(2)] by simp
  show ?thesis
    by (intro conjI attached_ok f(1,2,3,4) conjunct1 [OF r1] conjunct1 [OF m]
        conjunct1 [OF conjunct2 [OF m]] conjunct1 [OF conjunct2 [OF conjunct2 [OF m]]]
        r300 r9 conjunct1 [OF g1] conjunct1 [OF mg] g9)
qed

text \<open>
  Where the table is in order: the empty table is; an attach that succeeds keeps it so when
  \<^verbatim>\<open>grub_malloc\<close> returns a block that is not in use; the attaches that are turned
  away before the allocation leave the table as it is (\<open>attach_rejects_early\<close>); and
  detach keeps it so (\<open>detached_ok\<close>).
\<close>

lemma slots_ok_init: "slots_ok driver_init n"
  by (simp add: slots_ok_def driver_init_fields)

lemma slots_ok_new_slot:
  assumes "slots_ok w n" "mem w p = None" "term_data slot = Some p"
  shows "slots_ok (w\<lparr>mem := (mem w)(p \<mapsto> data), strs := s,
                     terms := (terms w)(curnum := slot),
                     reads := r, inputs := inp\<rparr>) n"
  unfolding slots_ok_def
proof (intro allI impI)
  let ?w' = "w\<lparr>mem := (mem w)(p \<mapsto> data), strs := s,
                     terms := (terms w)(curnum := slot),
                     reads := r, inputs := inp\<rparr>"
  fix i q
  assume i: "i < n" and q: "term_data (terms ?w' i) = Some q"
  have fresh: "term_data (terms w j) \<noteq> Some p" if "j < n" for j
    using slots_ok_mem [OF assms(1) that, of p] assms(2) by auto
  show "mem ?w' q \<noteq> None \<and> (\<forall>j<n. j \<noteq> i \<longrightarrow> term_data (terms ?w' j) \<noteq> Some q)"
  proof (cases "i = curnum")
    case True
    then have "q = p" using q assms(3) by simp
    then show ?thesis using True fresh by simp
  next
    case False
    then have qi: "term_data (terms w i) = Some q" using q by simp
    then have "q \<noteq> p" using fresh [OF i] by auto
    then have "mem ?w' q \<noteq> None" using slots_ok_mem [OF assms(1) i qi] by simp
    moreover have "term_data (terms ?w' j) \<noteq> Some q" if "j < n" "j \<noteq> i" for j
      using slots_ok_distinct [OF assms(1) i that qi] \<open>q \<noteq> p\<close> assms(3) by auto
    ultimately show ?thesis by blast
  qed
qed

lemma attach_keeps_slots_ok:
  assumes "slots_ok w n" "fst (grub_usb_snes_attach env dev configno ifno w) = 1"
    and "malloc_res env = Some p" "mem w p = None"
  shows "slots_ok (snd (grub_usb_snes_attach env dev configno ifno w)) n"
proof -
  obtain nm t where e: "xasprintf_res env = Some nm" "read_res env = Some t"
    and s: "is_supported_device (vendorid dev) (prodid dev)"
      "first_free (terms w) [0..<MAX_GAMEPADS] MAX_GAMEPADS \<noteq> MAX_GAMEPADS"
      "find_endp (descendp dev) 0 \<noteq> length (descendp dev)"
    using assms(2,3)
    by (auto simp add: grub_usb_snes_attach_def Let_def split: if_splits option.splits)
  let ?c = "first_free (terms w) [0..<MAX_GAMEPADS] MAX_GAMEPADS"
  let ?d = "(snes_data_init (dev_ptr dev) ifno (find_endp (descendp dev) 0))\<lparr>transfer := Some t\<rparr>"
  have "snd (grub_usb_snes_attach env dev configno ifno w) =
      w\<lparr>mem := (mem w)(p \<mapsto> ?d), strs := (strs w)(nm \<mapsto> slot_name ''usb_snes'' ?c),
         terms := (terms w)(?c := \<lparr>term_name = Some nm, term_data = Some p\<rparr>),
         reads := insert t (reads w), inputs := insert ?c (inputs w)\<rparr>"
    using e s assms(3) by (simp add: grub_usb_snes_attach_def Let_def)
  then show ?thesis using slots_ok_new_slot [OF assms(1,4)] by simp
qed

lemma gp_attach_keeps_slots_ok:
  assumes "slots_ok w n" "fst (gp_grub_usb_snes_attach env dev configno ifno w) = 1"
    and "malloc_res env = Some p" "mem w p = None"
  shows "slots_ok (snd (gp_grub_usb_snes_attach env dev configno ifno w)) n"
proof -
  obtain nm t where e: "xasprintf_res env = Some nm" "read_res env = Some t"
    and s: "protocol dev \<noteq> 1"
      "first_free (terms w) [0..<GAMEPADS_CAPACITY] GAMEPADS_CAPACITY < GAMEPADS_CAPACITY"
      "find_endp (descendp dev) 0 \<noteq> length (descendp dev)"
    using assms(2,3)
    by (auto simp add: gp_grub_usb_snes_attach_def Let_def ACCEPT_ANY_HID_def
        split: if_splits option.splits)
  let ?c = "first_free (terms w) [0..<GAMEPADS_CAPACITY] GAMEPADS_CAPACITY"
  let ?d = "(gp_data_init (malloc_junk env) (dev_ptr dev) configno ifno
              (find_endp (descendp dev) 0))\<lparr>gp_transfer := Some t\<rparr>"
  have "snd (gp_grub_usb_snes_attach env dev configno ifno w) =
      w\<lparr>mem := (mem w)(p \<mapsto> ?d), strs := (strs w)(nm \<mapsto> slot_name ''snes_gamepad'' ?c),
         terms := (terms w)(?c := (terms w ?c)\<lparr>term_name := Some nm, term_data := Some p\<rparr>),
         reads := insert t (reads w), inputs := insert ?c (inputs w)\<rparr>"
    using e s assms(3) by (simp add: gp_grub_usb_snes_attach_def Let_def ACCEPT_ANY_HID_def)
  then show ?thesis using slots_ok_new_slot [OF assms(1,4)] by simp
qed

lemma sample_detach_unrecognized:
  "grub_usb_snes_detach 9 (snd (grub_usb_snes_attach env_no_name dev_pad 0 0 driver_init)) = None"
  "gp_grub_usb_snes_detach 9 (snd (gp_grub_usb_snes_attach env_no_read dev_pad 0 0 driver_init))
     = None"
  using sample_attach_fails(2,3,5,6)
  by (simp_all add: grub_usb_snes_detach_def gp_grub_usb_snes_detach_def MAX_GAMEPADS_def
      GAMEPADS_CAPACITY_def upt8 detach_slot_def)

text \<open>
  C9 does not hold of the code, in either file, on the tables that the defect of C8 leaves
  behind. After the failed attach of C8 slot 0 still points to the freed session. A detach
  for device 9, which was never attached and matches no slot, is then not the no-op the
  claim asks for: its loop finds the pointer in slot 0 and reads the device of the freed
  session, which has no defined result.
\<close>

theorem detach_unrecognized_reads_freed_session:
  "dev_ptr dev_pad \<noteq> 9 \<and>
   fst (grub_usb_snes_attach env_no_name dev_pad 0 0 driver_init) = 0 \<and>
   term_data (terms (snd (grub_usb_snes_attach env_no_name dev_pad 0 0 driver_init)) 0)
     = Some 100 \<and>
   mem (snd (grub_usb_snes_attach env_no_name dev_pad 0 0 driver_init)) 100 = None \<and>
   grub_usb_snes_detach 9 (snd (grub_usb_snes_attach env_no_name dev_pad 0 0 driver_init))
     = None \<and>
   fst (gp_grub_usb_snes_attach env_no_read dev_pad 0 0 driver_init) = 0 \<and>
   term_data (terms (snd (gp_grub_usb_snes_attach env_no_read dev_pad 0 0 driver_init)) 0)
     = Some 100 \<and>
   mem (snd (gp_grub_usb_snes_attach env_no_read dev_pad 0 0 driver_init)) 100 = None \<and>
   gp_grub_usb_snes_detach 9 (snd (gp_grub_usb_snes_attach env_no_read dev_pad 0 0 driver_init))
     = None"
proof -
  have a: "dev_ptr dev_pad \<noteq> 9" by (simp add: sample_more)
  show ?thesis
    by (intro conjI a sample_attach_fails sample_detach_unrecognized)
qed

end
